theory Spec2Isabelle
  imports Main
begin

section \<open>Cells, rows and JavaScript's coercions\<close>

text \<open>
  The workbook walker of \<^verbatim>\<open>ExcelProcessor.jsx\<close> sees every sheet as the array of
  arrays that \<^verbatim>\<open>XLSX.utils.sheet_to_json(sheet, {header: 1})\<close> returns. A cell of such
  a row is a JavaScript primitive: a hole of the sparse row reads as \<^verbatim>\<open>undefined\<close>, and
  the code itself produces \<^verbatim>\<open>null\<close>.

  A number is kept as its decimal rendering, the string that JavaScript's number to
  string conversion gives (\<^verbatim>\<open>20231001.5\<close> is \<open>Num ''20231001.5''\<close>). The code only
  ever renders a number into a string, tests its truthiness, compares it with
  \<^verbatim>\<open>===\<close> or hands it to \<^verbatim>\<open>Number\<close>, and each of these is determined by the rendering:
  both zeros render as \<^verbatim>\<open>0\<close>, and NaN renders as \<^verbatim>\<open>NaN\<close>.

  Strings are lists of 8-bit characters: the model covers the strings whose code units
  are below 256. Among these the line terminators, which \<^verbatim>\<open>.\<close> of a regular
  expression does not match, are line feed and carriage return.

  The specification's words "blank", "absent" and "present" are read the way the code
  decides them throughout, by truthiness: a blank cell is a falsy one.
\<close>

datatype cell = Undefined | Null | Bool bool | Num string | Str string

type_synonym row = "cell list"

datatype error = TypeError

fun truthy :: "cell \<Rightarrow> bool" where
  "truthy Undefined = False"
| "truthy Null = False"
| "truthy (Bool b) = b"
| "truthy (Num n) = (n \<noteq> ''0'' \<and> n \<noteq> ''NaN'')"
| "truthy (Str s) = (s \<noteq> [])"

fun toString :: "cell \<Rightarrow> string" where
  "toString Undefined = ''undefined''"
| "toString Null = ''null''"
| "toString (Bool b) = (if b then ''true'' else ''false'')"
| "toString (Num n) = n"
| "toString (Str s) = s"

text \<open>Strict equality \<^verbatim>\<open>a === b\<close>: same type and same value, and NaN equals nothing.\<close>

fun strict_eq :: "cell \<Rightarrow> cell \<Rightarrow> bool" where
  "strict_eq (Num a) (Num b) = (a = b \<and> a \<noteq> ''NaN'')"
| "strict_eq a b = (a = b)"

text \<open>\<^verbatim>\<open>a || b\<close>.\<close>

definition js_or :: "cell \<Rightarrow> cell \<Rightarrow> cell" where
  "js_or a b = (if truthy a then a else b)"

text \<open>
  \<^verbatim>\<open>row[i]\<close>: an index outside the row reads \<^verbatim>\<open>undefined\<close>; so does the index
  \<^verbatim>\<open>-1\<close> that \<^verbatim>\<open>findIndex\<close> returns, and so does \<^verbatim>\<open>null\<close> used as an index.
\<close>

definition nth_cell :: "row \<Rightarrow> int \<Rightarrow> cell" where
  "nth_cell r i = (if 0 \<le> i \<and> i < int (length r) then r ! nat i else Undefined)"

definition cell_at :: "row \<Rightarrow> int option \<Rightarrow> cell" where
  "cell_at r i = (case i of None \<Rightarrow> Undefined | Some n \<Rightarrow> nth_cell r n)"

text \<open>\<^verbatim>\<open>sheetData[i]\<close>: \<open>None\<close> is \<^verbatim>\<open>undefined\<close>.\<close>

definition row_at :: "row list \<Rightarrow> nat \<Rightarrow> row option" where
  "row_at sheetData i = (if i < length sheetData then Some (sheetData ! i) else None)"

text \<open>\<^verbatim>\<open>sheetData[i]?.[0]\<close>.\<close>

definition first_cell_at :: "row list \<Rightarrow> nat \<Rightarrow> cell" where
  "first_cell_at sheetData i =
     (case row_at sheetData i of None \<Rightarrow> Undefined | Some r \<Rightarrow> nth_cell r 0)"

text \<open>
  \<^verbatim>\<open>Array.prototype.find\<close> and \<^verbatim>\<open>findIndex\<close> visit every index from 0, holes
  included, and return \<^verbatim>\<open>undefined\<close> and \<^verbatim>\<open>-1\<close> when no element satisfies the
  predicate.
\<close>

fun js_find :: "(cell \<Rightarrow> bool) \<Rightarrow> row \<Rightarrow> cell" where
  "js_find P [] = Undefined"
| "js_find P (x # xs) = (if P x then x else js_find P xs)"

fun findIndex :: "(cell \<Rightarrow> bool) \<Rightarrow> row \<Rightarrow> int" where
  "findIndex P [] = -1"
| "findIndex P (x # xs) =
     (if P x then 0 else (let i = findIndex P xs in if i < 0 then -1 else i + 1))"

section \<open>Strings and regular expressions\<close>

fun startsWith :: "string \<Rightarrow> string \<Rightarrow> bool" where
  "startsWith s [] = True"
| "startsWith [] (p # ps) = False"
| "startsWith (c # cs) (p # ps) = (c = p \<and> startsWith cs ps)"

text \<open>\<^verbatim>\<open>s.includes(sub)\<close>: \<open>sub\<close> occurs in \<open>s\<close> at some position.\<close>

fun str_includes :: "string \<Rightarrow> string \<Rightarrow> bool" where
  "str_includes [] sub = startsWith [] sub"
| "str_includes (c # cs) sub = (startsWith (c # cs) sub \<or> str_includes cs sub)"

text \<open>
  \<^verbatim>\<open>s.replaceAll(c, r)\<close> for a search string of the single character \<open>c\<close>.
\<close>

definition replaceAll :: "char \<Rightarrow> string \<Rightarrow> string \<Rightarrow> string" where
  "replaceAll c r s = concat (map (\<lambda>x. if x = c then r else [x]) s)"

text \<open>
  The three regular expressions of the code are sequences of character classes, each
  taken once, one or more times (\<^verbatim>\<open>+\<close>) or exactly \<open>n\<close> times (\<^verbatim>\<open>{n}\<close>). The
  capturing group of \<^verbatim>\<open>(.+)wood\<close> does not change what \<^verbatim>\<open>test\<close> answers.
\<close>

datatype atom = AnyChar | Digit | Lit char

datatype piece = Once atom | Plus atom | Exactly nat atom

type_synonym regex = "piece list"

definition is_digit :: "char \<Rightarrow> bool" where
  "is_digit c = (c \<in> set ''0123456789'')"

fun atom_ok :: "atom \<Rightarrow> char \<Rightarrow> bool" where
  "atom_ok AnyChar c = (c \<noteq> CHR 0x0A \<and> c \<noteq> CHR 0x0D)"
| "atom_ok Digit c = is_digit c"
| "atom_ok (Lit l) c = (c = l)"

text \<open>
  \<open>match_here r s\<close>: the pattern matches a prefix of \<open>s\<close>. \<^verbatim>\<open>+\<close> is greedy and
  backtracks.
\<close>

fun match_here :: "regex \<Rightarrow> string \<Rightarrow> bool" where
  "match_here [] s = True"
| "match_here (Once a # ps) [] = False"
| "match_here (Once a # ps) (c # cs) = (atom_ok a c \<and> match_here ps cs)"
| "match_here (Exactly 0 a # ps) s = match_here ps s"
| "match_here (Exactly (Suc n) a # ps) [] = False"
| "match_here (Exactly (Suc n) a # ps) (c # cs) =
     (atom_ok a c \<and> match_here (Exactly n a # ps) cs)"
| "match_here (Plus a # ps) [] = False"
| "match_here (Plus a # ps) (c # cs) =
     (atom_ok a c \<and> (match_here (Plus a # ps) cs \<or> match_here ps cs))"

text \<open>
  \<^verbatim>\<open>new RegExp(r).test(s)\<close> without flags: the pattern is tried at every start index of
  \<open>s\<close>, from the first.
\<close>

fun regex_test :: "regex \<Rightarrow> string \<Rightarrow> bool" where
  "regex_test r [] = match_here r []"
| "regex_test r (c # cs) = (match_here r (c # cs) \<or> regex_test r cs)"

text \<open>\<^verbatim>\<open>(.+)wood\<close>, \<^verbatim>\<open>[0-9]{8}\.[0-9]\<close> and \<^verbatim>\<open>[0-9]+\*[0-9]+\<close>.\<close>

definition WOOD_RE :: regex where
  "WOOD_RE = Plus AnyChar # map (\<lambda>c. Once (Lit c)) ''wood''"

definition PACK_RE :: regex where
  "PACK_RE = [Exactly 8 Digit, Once (Lit CHR ''.''), Once Digit]"

definition WIDTH_RE :: regex where
  "WIDTH_RE = [Plus Digit, Once (Lit CHR ''*''), Plus Digit]"

section \<open>Constants and utility functions\<close>

definition WOOD_TYPES :: "string list" where
  "WOOD_TYPES = [''redwood'', ''whitewood'']"

text \<open>
  \<^verbatim>\<open>ID_PREFIXES[key]\<close>: the object's own properties; any other key reads
  \<^verbatim>\<open>undefined\<close>. The names inherited from \<^verbatim>\<open>Object.prototype\<close> are left out: none of
  them contains \<^verbatim>\<open>wood\<close>, so none is ever a wood type found by the section detector.
\<close>

definition ID_PREFIXES :: "string \<Rightarrow> cell" where
  "ID_PREFIXES key =
     (if key = ''redwood'' then Str ''R1''
      else if key = ''whitewood'' then Str ''W1''
      else Undefined)"

text \<open>
  \<^verbatim>\<open>status.includes\<close> is a method of strings only: on \<^verbatim>\<open>null\<close> and
  \<^verbatim>\<open>undefined\<close> the property access throws, on a number or a boolean the call of a
  missing method throws; each is a TypeError.
\<close>

fun normalizeStatus :: "cell \<Rightarrow> error + string" where
  "normalizeStatus (Str status) =
     (if str_includes status ''S/F'' then Inr ''SF''
      else if str_includes status ''IV'' then Inr ''IV''
      else if status = ''V'' then Inr ''V''
      else Inr status)"
| "normalizeStatus c = Inl TypeError"

text \<open>The loop of \<^verbatim>\<open>findNextNonEmptyCell\<close>, from \<open>i\<close> upwards.\<close>

function findNext_loop :: "row \<Rightarrow> int \<Rightarrow> cell" where
  "findNext_loop array i =
     (if i < int (length array)
      then (if truthy (nth_cell array i) then nth_cell array i
            else findNext_loop array (i + 1))
      else Null)"
  by pat_completeness auto
termination
  by (relation "measure (\<lambda>(array, i). nat (int (length array) - i))") auto

declare findNext_loop.simps [simp del]

text \<open>
  \<open>index\<close> is a number, or \<^verbatim>\<open>null\<close> (\<open>None\<close>) when the context's pack index was
  never set; \<^verbatim>\<open>null + 1\<close> is 1.
\<close>

definition findNextNonEmptyCell :: "row \<Rightarrow> int option \<Rightarrow> cell" where
  "findNextNonEmptyCell array index =
     findNext_loop array ((case index of None \<Rightarrow> 0 | Some n \<Rightarrow> n) + 1)"

section \<open>The parse context and the record emitter\<close>

record parse_context =
  woodType :: cell
  width :: cell
  status :: cell
  dimensions :: "row option"
  packIndex :: "int option"

text \<open>
  \<open>Number c\<close> stands for the result of \<^verbatim>\<open>Number(c)\<close>; the conversion of a string to a
  floating point number is not modelled.
\<close>

datatype number = Number cell

record item =
  id_item :: string
  packId :: number
  amount :: cell
  status_item :: string

text \<open>
  The object literal is evaluated field by field. \<^verbatim>\<open>context.dimensions[amountIndex]\<close>
  throws a TypeError when \<^verbatim>\<open>dimensions\<close> is \<^verbatim>\<open>null\<close>; the template literal renders
  each of its three values with the string conversion and ends with the character
  \<^verbatim>\<open>0\<close>.
\<close>

definition getItemObject :: "row \<Rightarrow> parse_context \<Rightarrow> error + item" where
  "getItemObject r ctx =
     (let amount = findNextNonEmptyCell r (packIndex ctx);
          amountIndex = findIndex (\<lambda>cell. strict_eq cell amount) r
      in case dimensions ctx of
           None \<Rightarrow> Inl TypeError
         | Some dims \<Rightarrow>
             (let ident = replaceAll CHR ''*'' [] (replaceAll CHR ''.'' []
                    (toString (ID_PREFIXES (toString (woodType ctx))) @ toString (width ctx)
                       @ toString (nth_cell dims amountIndex) @ ''0''))
              in case normalizeStatus (status ctx) of
                   Inl e \<Rightarrow> Inl e
                 | Inr st \<Rightarrow>
                     Inr \<lparr>id_item = ident, packId = Number (cell_at r (packIndex ctx)),
                          amount = amount, status_item = st\<rparr>))"

section \<open>The workbook walker\<close>

text \<open>
  \<^verbatim>\<open>forEach\<close> with a callback that may throw: the first exception ends the loop.
\<close>

fun forEach :: "('a \<Rightarrow> 's \<Rightarrow> error + 's) \<Rightarrow> 'a list \<Rightarrow> 's \<Rightarrow> error + 's" where
  "forEach f [] s = Inr s"
| "forEach f (x # xs) s = (case f x s of Inl e \<Rightarrow> Inl e | Inr s' \<Rightarrow> forEach f xs s')"

definition is_wood :: "cell \<Rightarrow> bool" where
  "is_wood cell = list_ex (\<lambda>wood. regex_test WOOD_RE (toString cell)) WOOD_TYPES"

text \<open>
  The callback of \<^verbatim>\<open>sheetData.forEach((row, index) => ...)\<close>. The state is the context
  object, which the callback mutates, and the output array, to which it pushes.
\<close>

definition process_row ::
  "row list \<Rightarrow> row \<times> nat \<Rightarrow> parse_context \<times> item list \<Rightarrow> error + parse_context \<times> item list"
where
  "process_row sheetData ri st =
     (case ri of (r, index) \<Rightarrow> case st of (ctx, output) \<Rightarrow>
      let wood = js_find is_wood r in
      if truthy wood then
        (let woodTypeIndex = findIndex (\<lambda>cell. strict_eq cell wood) r;
             dims = (case row_at sheetData (index + 1) of None \<Rightarrow> [] | Some d \<Rightarrow> d)
         in Inr (\<lparr>woodType = wood,
                  width = js_or (first_cell_at sheetData (index + 2)) (Str []),
                  status = findNextNonEmptyCell r (Some woodTypeIndex),
                  dimensions = Some dims,
                  packIndex = Some (findIndex (\<lambda>cell. strict_eq cell (Str ''PACK'')) dims)\<rparr>,
                 output))
      else
        (let pack = cell_at r (packIndex ctx);
             w = first_cell_at sheetData (index + 1);
             upd = (\<lambda>c. if truthy w \<and> regex_test WIDTH_RE (toString w)
                         then c\<lparr>width := w\<rparr> else c)
         in if truthy pack \<and> regex_test PACK_RE (toString pack)
            then (case getItemObject r ctx of
                    Inl e \<Rightarrow> Inl e
                  | Inr it \<Rightarrow> Inr (upd ctx, output @ [it]))
            else Inr (upd ctx, output)))"

text \<open>
  A workbook as \<^verbatim>\<open>XLSX.read\<close> returns it: the sheet names in order and the sheets by
  name. A sheet is kept as its rows; \<^verbatim>\<open>sheet_to_json\<close> returns the empty array for a
  sheet that is missing.
\<close>

record workbook =
  SheetNames :: "string list"
  Sheets :: "string \<Rightarrow> row list option"

definition sheet_to_json :: "row list option \<Rightarrow> row list" where
  "sheet_to_json sheet = (case sheet of None \<Rightarrow> [] | Some rows \<Rightarrow> rows)"

definition process_sheet ::
  "workbook \<Rightarrow> string \<Rightarrow> parse_context \<times> item list \<Rightarrow> error + parse_context \<times> item list"
where
  "process_sheet wb sheetName st =
     (let sheetData = sheet_to_json (Sheets wb sheetName)
      in forEach (process_row sheetData) (zip sheetData [0 ..< length sheetData]) st)"

definition initial_context :: parse_context where
  "initial_context =
     \<lparr>woodType = Null, width = Null, status = Null, dimensions = None, packIndex = None\<rparr>"

text \<open>
  \<open>Inr output\<close> is the call \<^verbatim>\<open>setData(output)\<close>; an exception leaves the function
  before it.
\<close>

definition processWorkbook :: "workbook \<Rightarrow> error + item list" where
  "processWorkbook wb =
     (case forEach (process_sheet wb) (SheetNames wb) (initial_context, []) of
        Inl e \<Rightarrow> Inl e
      | Inr (ctx, output) \<Rightarrow> Inr output)"

section \<open>The export adapter\<close>

text \<open>
  The properties of an emitted record, in the order of the object literal of
  \<^verbatim>\<open>getItemObject\<close>; a property holds a string, a number or a cell.
\<close>

datatype field = FString string | FNumber number | FCell cell

definition Object_entries :: "item \<Rightarrow> (string \<times> field) list" where
  "Object_entries it =
     [(''id'', FString (id_item it)), (''packId'', FNumber (packId it)),
      (''amount'', FCell (amount it)), (''status'', FString (status_item it))]"

type_synonym worksheet = "field list list"

type_synonym out_book = "(string \<times> worksheet) list"

text \<open>
  Modelled from the spec: \<^verbatim>\<open>XLSX.utils.json_to_sheet\<close>, \<^verbatim>\<open>book_new\<close> and
  \<^verbatim>\<open>book_append_sheet\<close> belong to the xlsx library, whose code is not in the repository.
  The specification has the list serialised "into a single-sheet tabular file using the
  record field names as column headers in first-record key order", with one row per
  record below the header row.
\<close>

definition json_to_sheet :: "item list \<Rightarrow> worksheet" where
  "json_to_sheet data =
     (case data of
        [] \<Rightarrow> []
      | first # _ \<Rightarrow>
          map (\<lambda>kv. FString (fst kv)) (Object_entries first)
            # map (\<lambda>it. map snd (Object_entries it)) data)"

definition book_new :: out_book where
  "book_new = []"

definition book_append_sheet :: "out_book \<Rightarrow> worksheet \<Rightarrow> string \<Rightarrow> out_book" where
  "book_append_sheet wb ws name = wb @ [(name, ws)]"

text \<open>What the user sees of an export: a notice, or a file written.\<close>

datatype effect = Alert string | WriteFile out_book string

definition exportToExcel :: "item list \<Rightarrow> effect list" where
  "exportToExcel data =
     (if length data = 0 then [Alert ''No data to export!'']
      else (let ws = json_to_sheet data;
                wb = book_new;
                wb' = book_append_sheet wb ws ''Processed Data''
            in [WriteFile wb' ''processed_output.xlsx'']))"

section \<open>Example rows and workbooks\<close>

text \<open>The row of the specification's example for the next non-blank cell.\<close>

definition row_holes :: row where
  "row_holes = [Str ''a'', Str [], Null, Str ''b'']"

text \<open>
  The sheet of the specification's worked example: a section header, its dimensions
  row, a width row and a data row; the context that the header leaves, and the record
  of the data row.
\<close>

definition row_header :: row where
  "row_header = [Str [], Str ''redwood'', Str ''V'']"

definition row_dims :: row where
  "row_dims = [Str ''PACK'', Str ''100'', Str ''200'']"

definition row_data :: row where
  "row_data = [Str ''20231005.2'', Str [], Str ''150'']"

definition sheet_example :: "row list" where
  "sheet_example = [row_header, row_dims, [Str ''50*60''], row_data]"

definition ctx_V :: parse_context where
  "ctx_V = \<lparr>woodType = Str ''redwood'', width = Str ''50*60'', status = Str ''V'',
     dimensions = Some row_dims, packIndex = Some 0\<rparr>"

definition item_data :: item where
  "item_data = \<lparr>id_item = ''R150602000'', packId = Number (Str ''20231005.2''),
     amount = Str ''150'', status_item = ''V''\<rparr>"

text \<open>Further rows, sheets and workbooks, used as concrete inputs below.\<close>

definition ctx_null :: parse_context where
  "ctx_null = ctx_V\<lparr>status := Null\<rparr>"

definition ctx_IV :: parse_context where
  "ctx_IV = \<lparr>woodType = Str ''whitewood'', width = Str [], status = Str ''IV'',
     dimensions = Some [], packIndex = Some (- 1)\<rparr>"

definition item_no_amount :: item where
  "item_no_amount = \<lparr>id_item = ''R15060undefined0'', packId = Number (Str ''20231005.2''),
     amount = Null, status_item = ''V''\<rparr>"

definition row_two_decimals :: row where
  "row_two_decimals = [Num ''20231005.25'', Str [], Str ''150'']"

definition item_two_decimals :: item where
  "item_two_decimals = \<lparr>id_item = ''R150602000'', packId = Number (Num ''20231005.25''),
     amount = Str ''150'', status_item = ''V''\<rparr>"

definition sheet_header_pack :: "row list" where
  "sheet_header_pack = sheet_example @ [[Str ''20231001.5'', Str ''whitewood'', Str ''IV'']]"

definition sheet_null_status :: "row list" where
  "sheet_null_status = [[Str ''redwood''], row_dims, [Str ''50*60''], row_data]"

definition wb_null_status :: workbook where
  "wb_null_status = \<lparr>SheetNames = [''Sheet1''], Sheets = [''Sheet1'' \<mapsto> sheet_null_status]\<rparr>"

definition wb_no_header :: workbook where
  "wb_no_header = \<lparr>SheetNames = [''Sheet1'', ''Sheet2''],
     Sheets = [''Sheet1'' \<mapsto> [row_dims, [Str ''50*60''], row_data], ''Sheet2'' \<mapsto> [row_data]]\<rparr>"

definition sheet_one :: "row list" where
  "sheet_one = [row_header, row_dims, [Str ''50*60'']]"

definition sheet_two :: "row list" where
  "sheet_two = [[], [Str ''70*80''], row_data]"

definition wb_two_sheets :: workbook where
  "wb_two_sheets = \<lparr>SheetNames = [''Sheet1'', ''Sheet2''],
     Sheets = [''Sheet1'' \<mapsto> sheet_one, ''Sheet2'' \<mapsto> sheet_two]\<rparr>"

definition item_two :: item where
  "item_two = \<lparr>id_item = ''R170802000'', packId = Number (Str ''20231005.2''),
     amount = Str ''150'', status_item = ''V''\<rparr>"

definition wb_two_null :: workbook where
  "wb_two_null = \<lparr>SheetNames = [''Sheet1'', ''Sheet2''],
     Sheets = [''Sheet1'' \<mapsto> [[Str ''redwood''], row_dims, [Str ''50*60'']],
               ''Sheet2'' \<mapsto> [row_data]]\<rparr>"

definition sheet_width_text :: "row list" where
  "sheet_width_text = [row_header, row_dims, [Str ''50*60''], [Str ''ab12*34cd''], row_data]"

definition wb_width_text :: workbook where
  "wb_width_text = \<lparr>SheetNames = [''Sheet1''], Sheets = [''Sheet1'' \<mapsto> sheet_width_text]\<rparr>"

definition item_width_text :: item where
  "item_width_text = \<lparr>id_item = ''R1ab1234cd2000'', packId = Number (Str ''20231005.2''),
     amount = Str ''150'', status_item = ''V''\<rparr>"

definition sheet_plain :: "row list" where
  "sheet_plain = [[Str ''note''], row_data]"

definition wb_two_plain :: workbook where
  "wb_two_plain = \<lparr>SheetNames = [''Sheet1'', ''Sheet2''],
     Sheets = [''Sheet1'' \<mapsto> sheet_one, ''Sheet2'' \<mapsto> sheet_plain]\<rparr>"

text \<open>
  The property names that every object inherits from \<^verbatim>\<open>Object.prototype\<close>.
\<close>

definition Object_prototype_names :: "string list" where
  "Object_prototype_names =
     [''constructor'', ''hasOwnProperty'', ''isPrototypeOf'', ''propertyIsEnumerable'',
      ''toLocaleString'', ''toString'', ''valueOf'', ''__proto__'', ''__defineGetter__'',
      ''__defineSetter__'', ''__lookupGetter__'', ''__lookupSetter__'']"

section \<open>Substrings and what the regular expressions match\<close>

text \<open>
  \<^verbatim>\<open>includes\<close> and \<^verbatim>\<open>test\<close> search: they answer whether the string contains an
  occurrence, anywhere. None of the three patterns is anchored.
\<close>

lemma startsWith_iff: "startsWith s p \<longleftrightarrow> (\<exists>post. s = p @ post)"
  by (induction s p rule: startsWith.induct) auto

lemma str_includes_iff: "str_includes s sub \<longleftrightarrow> (\<exists>pre post. s = pre @ sub @ post)"
proof (induction s)
  case Nil
  then show ?case by (auto simp: startsWith_iff)
next
  case (Cons c cs)
  show ?case
  proof
    assume "str_includes (c # cs) sub"
    then consider "startsWith (c # cs) sub" | "str_includes cs sub" by auto
    then show "\<exists>pre post. c # cs = pre @ sub @ post"
    proof cases
      case 1
      then obtain post where "c # cs = [] @ sub @ post" by (auto simp: startsWith_iff)
      then show ?thesis by blast
    next
      case 2
      then obtain pre post where "cs = pre @ sub @ post" using Cons.IH by blast
      then have "c # cs = (c # pre) @ sub @ post" by simp
      then show ?thesis by blast
    qed
  next
    assume "\<exists>pre post. c # cs = pre @ sub @ post"
    then obtain pre post where e: "c # cs = pre @ sub @ post" by blast
    show "str_includes (c # cs) sub"
    proof (cases pre)
      case Nil
      with e have "startsWith (c # cs) sub" by (auto simp: startsWith_iff)
      then show ?thesis by simp
    next
      case (Cons a pre')
      with e have "cs = pre' @ sub @ post" by simp
      then have "str_includes cs sub" using Cons.IH by blast
      then show ?thesis by simp
    qed
  qed
qed

lemma regex_test_iff: "regex_test r s \<longleftrightarrow> (\<exists>pre rest. s = pre @ rest \<and> match_here r rest)"
proof (induction s)
  case Nil
  then show ?case by simp
next
  case (Cons c cs)
  show ?case
  proof
    assume "regex_test r (c # cs)"
    then consider "match_here r (c # cs)" | "regex_test r cs" by auto
    then show "\<exists>pre rest. c # cs = pre @ rest \<and> match_here r rest"
    proof cases
      case 1
      then have "c # cs = [] @ (c # cs) \<and> match_here r (c # cs)" by simp
      then show ?thesis by blast
    next
      case 2
      then obtain pre rest where "cs = pre @ rest" "match_here r rest" using Cons.IH by blast
      then have "c # cs = (c # pre) @ rest \<and> match_here r rest" by simp
      then show ?thesis by blast
    qed
  next
    assume "\<exists>pre rest. c # cs = pre @ rest \<and> match_here r rest"
    then obtain pre rest where e: "c # cs = pre @ rest" and m: "match_here r rest" by blast
    show "regex_test r (c # cs)"
    proof (cases pre)
      case Nil
      with e have "rest = c # cs" by simp
      with m show ?thesis by simp
    next
      case (Cons a pre')
      with e have "cs = pre' @ rest" by simp
      with m have "regex_test r cs" using Cons.IH by blast
      then show ?thesis by simp
    qed
  qed
qed

lemma match_here_Once:
  "match_here (Once a # ps) s \<longleftrightarrow> (\<exists>c rest. s = c # rest \<and> atom_ok a c \<and> match_here ps rest)"
  by (cases s) auto

lemma match_here_Exactly:
  "match_here (Exactly n a # ps) s \<longleftrightarrow>
     (\<exists>xs rest. s = xs @ rest \<and> length xs = n \<and> list_all (atom_ok a) xs \<and> match_here ps rest)"
proof (induction n arbitrary: s)
  case 0
  then show ?case by simp
next
  case (Suc n)
  show ?case
  proof (cases s)
    case Nil
    then show ?thesis by simp
  next
    case (Cons c cs)
    show ?thesis
    proof
      assume "match_here (Exactly (Suc n) a # ps) s"
      with Cons have "atom_ok a c" "match_here (Exactly n a # ps) cs" by auto
      then obtain xs rest where "cs = xs @ rest" "length xs = n" "list_all (atom_ok a) xs" "match_here ps rest"
        using Suc.IH by blast
      with Cons \<open>atom_ok a c\<close> have "s = (c # xs) @ rest \<and> length (c # xs) = Suc n \<and> list_all (atom_ok a) (c # xs) \<and> match_here ps rest"
        by simp
      then show "\<exists>xs rest. s = xs @ rest \<and> length xs = Suc n \<and> list_all (atom_ok a) xs \<and> match_here ps rest"
        by blast
    next
      assume "\<exists>xs rest. s = xs @ rest \<and> length xs = Suc n \<and> list_all (atom_ok a) xs \<and> match_here ps rest"
      then obtain xs rest where e: "s = xs @ rest" "length xs = Suc n" "list_all (atom_ok a) xs" "match_here ps rest"
        by blast
      then obtain x xs' where xs: "xs = x # xs'" by (cases xs) auto
      with e Cons have "c = x" "cs = xs' @ rest" "length xs' = n" "atom_ok a x" "list_all (atom_ok a) xs'" by auto
      with e(4) have "match_here (Exactly n a # ps) cs" using Suc.IH by blast
      with Cons \<open>c = x\<close> \<open>atom_ok a x\<close> show "match_here (Exactly (Suc n) a # ps) s" by simp
    qed
  qed
qed

lemma match_here_Plus:
  "match_here (Plus a # ps) s \<longleftrightarrow>
     (\<exists>x xs rest. s = x # xs @ rest \<and> list_all (atom_ok a) (x # xs) \<and> match_here ps rest)"
proof (induction s)
  case Nil
  then show ?case by simp
next
  case (Cons c cs)
  show ?case
  proof
    assume "match_here (Plus a # ps) (c # cs)"
    then have ok: "atom_ok a c" and d: "match_here (Plus a # ps) cs \<or> match_here ps cs" by auto
    from d show "\<exists>x xs rest. c # cs = x # xs @ rest \<and> list_all (atom_ok a) (x # xs) \<and> match_here ps rest"
    proof
      assume "match_here (Plus a # ps) cs"
      then obtain x xs rest where "cs = x # xs @ rest" "list_all (atom_ok a) (x # xs)" "match_here ps rest"
        using Cons.IH by blast
      with ok have "c # cs = c # (x # xs) @ rest \<and> list_all (atom_ok a) (c # x # xs) \<and> match_here ps rest"
        by simp
      then show ?thesis by blast
    next
      assume "match_here ps cs"
      with ok have "c # cs = c # [] @ cs \<and> list_all (atom_ok a) (c # []) \<and> match_here ps cs" by simp
      then show ?thesis by blast
    qed
  next
    assume "\<exists>x xs rest. c # cs = x # xs @ rest \<and> list_all (atom_ok a) (x # xs) \<and> match_here ps rest"
    then obtain x xs rest where e: "c # cs = x # xs @ rest" "list_all (atom_ok a) (x # xs)" "match_here ps rest"
      by blast
    then have ok: "atom_ok a c" and cs: "cs = xs @ rest" by auto
    show "match_here (Plus a # ps) (c # cs)"
    proof (cases xs)
      case Nil
      with cs e(3) ok show ?thesis by simp
    next
      case (Cons y ys)
      with cs e(2) have "cs = y # ys @ rest \<and> list_all (atom_ok a) (y # ys)" by simp
      with e(3) have "match_here (Plus a # ps) cs" using Cons.IH by blast
      with ok show ?thesis by simp
    qed
  qed
qed

lemma match_here_lits:
  "match_here (map (\<lambda>c. Once (Lit c)) p) s \<longleftrightarrow> (\<exists>post. s = p @ post)"
proof (induction p arbitrary: s)
  case Nil
  then show ?case by simp
next
  case (Cons a p)
  then show ?case by (cases s) auto
qed

lemma atom_ok_Digit: "list_all (atom_ok Digit) xs = list_all is_digit xs"
  by (induction xs) auto

lemma atom_ok_AnyChar:
  "list_all (atom_ok AnyChar) xs = list_all (\<lambda>c. c \<noteq> CHR 0x0A \<and> c \<noteq> CHR 0x0D) xs"
  by (induction xs) auto

text \<open>
  The pack id pattern: somewhere in the string stand eight digits, a dot and a digit.
\<close>

lemma regex_test_PACK_RE:
  "regex_test PACK_RE s \<longleftrightarrow>
     (\<exists>pre ds c post. s = pre @ ds @ CHR ''.'' # c # post \<and> length ds = 8 \<and>
        list_all is_digit ds \<and> is_digit c)"
proof
  assume "regex_test PACK_RE s"
  then obtain pre rest where s: "s = pre @ rest" and m: "match_here PACK_RE rest"
    unfolding regex_test_iff by blast
  from m obtain ds r1 where r: "rest = ds @ r1" "length ds = 8" "list_all is_digit ds"
      and m1: "match_here [Once (Lit CHR ''.''), Once Digit] r1"
    unfolding PACK_RE_def match_here_Exactly atom_ok_Digit by blast
  from m1 obtain r2 where r1: "r1 = CHR ''.'' # r2" and m2: "match_here [Once Digit] r2"
    unfolding match_here_Once by auto
  from m2 obtain c post where r2: "r2 = c # post" "is_digit c"
    unfolding match_here_Once by auto
  from s r r1 r2 have "s = pre @ ds @ CHR ''.'' # c # post" by simp
  with r r2 show "\<exists>pre ds c post. s = pre @ ds @ CHR ''.'' # c # post \<and> length ds = 8 \<and>
        list_all is_digit ds \<and> is_digit c" by blast
next
  assume "\<exists>pre ds c post. s = pre @ ds @ CHR ''.'' # c # post \<and> length ds = 8 \<and>
        list_all is_digit ds \<and> is_digit c"
  then obtain pre ds c post where s: "s = pre @ ds @ CHR ''.'' # c # post"
      and d: "length ds = 8" "list_all is_digit ds" "is_digit c" by blast
  from d(3) have "match_here [Once Digit] (c # post)" by simp
  then have "match_here [Once (Lit CHR ''.''), Once Digit] (CHR ''.'' # c # post)" by simp
  with d have "match_here PACK_RE (ds @ CHR ''.'' # c # post)"
    unfolding PACK_RE_def match_here_Exactly atom_ok_Digit by blast
  with s show "regex_test PACK_RE s" unfolding regex_test_iff by blast
qed

text \<open>
  The width pattern: somewhere in the string stand one or more digits, a star and one or
  more digits.
\<close>

lemma regex_test_WIDTH_RE:
  "regex_test WIDTH_RE s \<longleftrightarrow>
     (\<exists>pre d ds e es post. s = pre @ (d # ds) @ CHR ''*'' # (e # es) @ post \<and>
        list_all is_digit (d # ds) \<and> list_all is_digit (e # es))"
proof
  assume "regex_test WIDTH_RE s"
  then obtain pre rest where s: "s = pre @ rest" and m: "match_here WIDTH_RE rest"
    unfolding regex_test_iff by blast
  from m obtain d ds r1 where r: "rest = d # ds @ r1" "list_all is_digit (d # ds)"
      and m1: "match_here [Once (Lit CHR ''*''), Plus Digit] r1"
    unfolding WIDTH_RE_def match_here_Plus atom_ok_Digit by blast
  from m1 obtain r2 where r1: "r1 = CHR ''*'' # r2" and m2: "match_here [Plus Digit] r2"
    unfolding match_here_Once by auto
  from m2 obtain e es post where r2: "r2 = e # es @ post" "list_all is_digit (e # es)"
    unfolding match_here_Plus atom_ok_Digit by blast
  from s r r1 r2 have "s = pre @ (d # ds) @ CHR ''*'' # (e # es) @ post" by simp
  with r r2 show "\<exists>pre d ds e es post. s = pre @ (d # ds) @ CHR ''*'' # (e # es) @ post \<and>
        list_all is_digit (d # ds) \<and> list_all is_digit (e # es)" by blast
next
  assume "\<exists>pre d ds e es post. s = pre @ (d # ds) @ CHR ''*'' # (e # es) @ post \<and>
        list_all is_digit (d # ds) \<and> list_all is_digit (e # es)"
  then obtain pre d ds e es post where s: "s = pre @ (d # ds) @ CHR ''*'' # (e # es) @ post"
      and d: "list_all is_digit (d # ds)" and e: "list_all is_digit (e # es)" by blast
  have "match_here [] post" by simp
  with e have "match_here [Plus Digit] (e # es @ post)"
    unfolding match_here_Plus atom_ok_Digit by blast
  then have "match_here [Once (Lit CHR ''*''), Plus Digit] (CHR ''*'' # (e # es) @ post)" by simp
  with d have "match_here WIDTH_RE (d # ds @ CHR ''*'' # (e # es) @ post)"
    unfolding WIDTH_RE_def match_here_Plus atom_ok_Digit by blast
  with s have "s = pre @ (d # ds @ CHR ''*'' # (e # es) @ post) \<and>
      match_here WIDTH_RE (d # ds @ CHR ''*'' # (e # es) @ post)" by simp
  then show "regex_test WIDTH_RE s" unfolding regex_test_iff by blast
qed

text \<open>
  The wood type pattern: somewhere in the string stands \<^verbatim>\<open>wood\<close>, after at least one
  character that is not a line terminator.
\<close>

lemma regex_test_WOOD_RE:
  "regex_test WOOD_RE s \<longleftrightarrow>
     (\<exists>pre x xs post. s = pre @ (x # xs) @ ''wood'' @ post \<and>
        list_all (\<lambda>c. c \<noteq> CHR 0x0A \<and> c \<noteq> CHR 0x0D) (x # xs))"
proof
  assume "regex_test WOOD_RE s"
  then obtain pre rest where s: "s = pre @ rest" and m: "match_here WOOD_RE rest"
    unfolding regex_test_iff by blast
  from m obtain x xs r1 where r: "rest = x # xs @ r1"
      "list_all (\<lambda>c. c \<noteq> CHR 0x0A \<and> c \<noteq> CHR 0x0D) (x # xs)"
      and m1: "match_here (map (\<lambda>c. Once (Lit c)) ''wood'') r1"
    unfolding WOOD_RE_def match_here_Plus atom_ok_AnyChar by blast
  from m1 obtain post where "r1 = ''wood'' @ post" unfolding match_here_lits by blast
  with s r have "s = pre @ (x # xs) @ ''wood'' @ post" by simp
  with r show "\<exists>pre x xs post. s = pre @ (x # xs) @ ''wood'' @ post \<and>
        list_all (\<lambda>c. c \<noteq> CHR 0x0A \<and> c \<noteq> CHR 0x0D) (x # xs)" by blast
next
  assume "\<exists>pre x xs post. s = pre @ (x # xs) @ ''wood'' @ post \<and>
        list_all (\<lambda>c. c \<noteq> CHR 0x0A \<and> c \<noteq> CHR 0x0D) (x # xs)"
  then obtain pre x xs post where s: "s = pre @ (x # xs) @ ''wood'' @ post"
      and d: "list_all (\<lambda>c. c \<noteq> CHR 0x0A \<and> c \<noteq> CHR 0x0D) (x # xs)" by blast
  have "match_here (map (\<lambda>c. Once (Lit c)) ''wood'') (''wood'' @ post)"
    unfolding match_here_lits by blast
  with d have "match_here WOOD_RE (x # xs @ ''wood'' @ post)"
    unfolding WOOD_RE_def match_here_Plus atom_ok_AnyChar by blast
  with s have "s = pre @ (x # xs @ ''wood'' @ post) \<and> match_here WOOD_RE (x # xs @ ''wood'' @ post)"
    by simp
  then show "regex_test WOOD_RE s" unfolding regex_test_iff by blast
qed

section \<open>Cells, searches and the scan for the next non-blank cell\<close>

lemma is_wood_iff: "is_wood c \<longleftrightarrow> regex_test WOOD_RE (toString c)"
  by (simp add: is_wood_def WOOD_TYPES_def)

lemma WOOD_RE_not_keywords:
  "\<not> regex_test WOOD_RE ''undefined''" "\<not> regex_test WOOD_RE ''null''"
  "\<not> regex_test WOOD_RE ''true''" "\<not> regex_test WOOD_RE ''false''"
  "\<not> regex_test WOOD_RE ''0''" "\<not> regex_test WOOD_RE ''NaN''" "\<not> regex_test WOOD_RE []"
  by code_simp+

lemma WIDTH_RE_not_keywords:
  "\<not> regex_test WIDTH_RE ''undefined''" "\<not> regex_test WIDTH_RE ''null''"
  "\<not> regex_test WIDTH_RE ''true''" "\<not> regex_test WIDTH_RE ''false''"
  "\<not> regex_test WIDTH_RE ''0''" "\<not> regex_test WIDTH_RE ''NaN''" "\<not> regex_test WIDTH_RE []"
  by code_simp+

lemma is_wood_truthy: "is_wood c \<Longrightarrow> truthy c"
  using WOOD_RE_not_keywords by (cases c) (auto simp: is_wood_iff split: if_splits)

lemma is_wood_strict_eq: "is_wood c \<Longrightarrow> strict_eq c c"
  using WOOD_RE_not_keywords by (cases c) (auto simp: is_wood_iff)

lemma width_match_truthy: "regex_test WIDTH_RE (toString w) \<Longrightarrow> truthy w"
  using WIDTH_RE_not_keywords by (cases w) (auto split: if_splits)

lemma strict_eq_imp_eq: "strict_eq a b \<Longrightarrow> a = b"
  by (cases a; cases b) auto

lemma strict_eq_Str [simp]: "strict_eq c (Str s) \<longleftrightarrow> c = Str s"
  by (cases c) auto

lemma strict_eq_Null [simp]: "strict_eq c Null \<longleftrightarrow> c = Null"
  by (cases c) auto

text \<open>
  No name inherited from \<^verbatim>\<open>Object.prototype\<close> matches the wood type pattern, so the
  lookup in \<^verbatim>\<open>ID_PREFIXES\<close> of a wood type that the section detector found reads an
  own property or \<^verbatim>\<open>undefined\<close>.
\<close>

lemma Object_prototype_names_not_wood:
  "\<not> (\<exists>name\<in>set Object_prototype_names. regex_test WOOD_RE name)"
  by code_simp

lemma js_find_first:
  assumes "k < length r" "P (r ! k)" "\<forall>j<k. \<not> P (r ! j)"
  shows "js_find P r = r ! k"
  using assms
proof (induction r arbitrary: k)
  case Nil
  then show ?case by simp
next
  case (Cons x xs)
  show ?case
  proof (cases k)
    case 0
    with Cons.prems show ?thesis by simp
  next
    case (Suc k')
    with Cons.prems have "\<not> P x" by auto
    moreover from Suc Cons.prems have "js_find P xs = xs ! k'"
      by (intro Cons.IH) auto
    ultimately show ?thesis using Suc by simp
  qed
qed

lemma js_find_none: "\<forall>x\<in>set r. \<not> P x \<Longrightarrow> js_find P r = Undefined"
  by (induction r) auto

lemma findIndex_first:
  assumes "k < length r" "P (r ! k)" "\<forall>j<k. \<not> P (r ! j)"
  shows "findIndex P r = int k"
  using assms
proof (induction r arbitrary: k)
  case Nil
  then show ?case by simp
next
  case (Cons x xs)
  show ?case
  proof (cases k)
    case 0
    with Cons.prems show ?thesis by simp
  next
    case (Suc k')
    with Cons.prems have "\<not> P x" by auto
    moreover from Suc Cons.prems have "findIndex P xs = int k'"
      by (intro Cons.IH) auto
    ultimately show ?thesis using Suc by (simp add: Let_def)
  qed
qed


lemma first_position:
  assumes "\<exists>x\<in>set r. P x"
  shows "\<exists>k<length r. P (r ! k) \<and> (\<forall>j<k. \<not> P (r ! j))"
proof -
  from assms obtain i where i: "i < length r" "P (r ! i)" by (auto simp: in_set_conv_nth)
  define k where "k = (LEAST n. n < length r \<and> P (r ! n))"
  have "k < length r \<and> P (r ! k)" unfolding k_def
    by (rule LeastI [where P = "\<lambda>n. n < length r \<and> P (r ! n)", OF conjI [OF i]])
  moreover have "\<forall>j<k. \<not> P (r ! j)"
  proof (intro allI impI)
    fix j assume "j < k"
    then have "\<not> (j < length r \<and> P (r ! j))" unfolding k_def by (rule not_less_Least)
    moreover from \<open>j < k\<close> \<open>k < length r \<and> P (r ! k)\<close> have "j < length r" by simp
    ultimately show "\<not> P (r ! j)" by simp
  qed
  ultimately show ?thesis by blast
qed

lemma findIndex_range: "- 1 \<le> findIndex P r \<and> findIndex P r < int (length r)"
  by (induction r) (auto simp: Let_def)

lemma findNext_loop_none:
  "\<forall>k. i \<le> k \<and> k < int (length a) \<longrightarrow> \<not> truthy (nth_cell a k) \<Longrightarrow> findNext_loop a i = Null"
proof (induction a i rule: findNext_loop.induct)
  case (1 array i)
  show ?case
  proof (cases "i < int (length array)")
    case True
    with "1.prems" have f: "\<not> truthy (nth_cell array i)" by simp
    from "1.prems" have "\<forall>k. i + 1 \<le> k \<and> k < int (length array) \<longrightarrow> \<not> truthy (nth_cell array k)"
      by simp
    with True f have "findNext_loop array (i + 1) = Null" by (intro "1.IH") auto
    with True f show ?thesis by (subst findNext_loop.simps) simp
  next
    case False
    then show ?thesis by (subst findNext_loop.simps) simp
  qed
qed

lemma findNext_loop_found:
  "i \<le> j \<Longrightarrow> j < int (length a) \<Longrightarrow> truthy (nth_cell a j) \<Longrightarrow>
   \<forall>k. i \<le> k \<and> k < j \<longrightarrow> \<not> truthy (nth_cell a k) \<Longrightarrow> findNext_loop a i = nth_cell a j"
proof (induction a i rule: findNext_loop.induct)
  case (1 array i)
  show ?case
  proof (cases "i = j")
    case True
    with "1.prems" show ?thesis by (subst findNext_loop.simps) simp
  next
    case False
    with "1.prems" have lt: "i < j" and f: "\<not> truthy (nth_cell array i)" by auto
    with "1.prems" have "findNext_loop array (i + 1) = nth_cell array j"
      by (intro "1.IH") auto
    with lt f "1.prems" show ?thesis by (subst findNext_loop.simps) simp
  qed
qed

lemma findNext_loop_cases:
  "findNext_loop a i = Null \<and> (\<forall>k. i \<le> k \<and> k < int (length a) \<longrightarrow> \<not> truthy (nth_cell a k))
   \<or> (\<exists>j. i \<le> j \<and> j < int (length a) \<and> truthy (nth_cell a j) \<and>
         (\<forall>k. i \<le> k \<and> k < j \<longrightarrow> \<not> truthy (nth_cell a k)) \<and> findNext_loop a i = nth_cell a j)"
proof (induction a i rule: findNext_loop.induct)
  case (1 array i)
  show ?case
  proof (cases "i < int (length array)")
    case False
    then have "findNext_loop array i = Null" by (subst findNext_loop.simps) simp
    with False show ?thesis by auto
  next
    case True
    show ?thesis
    proof (cases "truthy (nth_cell array i)")
      case t: True
      with True have "findNext_loop array i = nth_cell array i" by (subst findNext_loop.simps) simp
      with True t show ?thesis by (intro disjI2 exI [of _ i]) auto
    next
      case f: False
      with True have e: "findNext_loop array i = findNext_loop array (i + 1)"
        by (subst findNext_loop.simps) simp
      from "1.IH" [OF True f] show ?thesis
      proof
        assume a: "findNext_loop array (i + 1) = Null \<and>
          (\<forall>k. i + 1 \<le> k \<and> k < int (length array) \<longrightarrow> \<not> truthy (nth_cell array k))"
        have "\<forall>k. i \<le> k \<and> k < int (length array) \<longrightarrow> \<not> truthy (nth_cell array k)"
        proof (intro allI impI)
          fix k assume "i \<le> k \<and> k < int (length array)"
          then have "k = i \<or> (i + 1 \<le> k \<and> k < int (length array))" by arith
          with a f show "\<not> truthy (nth_cell array k)" by auto
        qed
        with a e show ?thesis by simp
      next
        assume "\<exists>j. i + 1 \<le> j \<and> j < int (length array) \<and> truthy (nth_cell array j) \<and>
          (\<forall>k. i + 1 \<le> k \<and> k < j \<longrightarrow> \<not> truthy (nth_cell array k)) \<and>
          findNext_loop array (i + 1) = nth_cell array j"
        then obtain j where j: "i + 1 \<le> j" "j < int (length array)" "truthy (nth_cell array j)"
          "\<forall>k. i + 1 \<le> k \<and> k < j \<longrightarrow> \<not> truthy (nth_cell array k)"
          "findNext_loop array (i + 1) = nth_cell array j" by blast
        have "\<forall>k. i \<le> k \<and> k < j \<longrightarrow> \<not> truthy (nth_cell array k)"
        proof (intro allI impI)
          fix k assume "i \<le> k \<and> k < j"
          then have "k = i \<or> (i + 1 \<le> k \<and> k < j)" by arith
          with j(4) f show "\<not> truthy (nth_cell array k)" by auto
        qed
        with j e show ?thesis by (intro disjI2 exI [of _ j]) auto
      qed
    qed
  qed
qed

section \<open>Status normalization\<close>

text \<open>
  C6. \<^verbatim>\<open>normalizeStatus\<close> is total on strings and applies the first rule that matches, in
  this order: a string that contains \<^verbatim>\<open>S/F\<close> gives \<^verbatim>\<open>SF\<close>; otherwise one that contains
  \<^verbatim>\<open>IV\<close> gives \<^verbatim>\<open>IV\<close>; otherwise the string \<^verbatim>\<open>V\<close> gives \<^verbatim>\<open>V\<close>; every other string
  is returned unchanged. In particular a string that contains both \<^verbatim>\<open>S/F\<close> and
  \<^verbatim>\<open>IV\<close> gives \<^verbatim>\<open>SF\<close>.
\<close>

theorem normalizeStatus_first_match:
  "normalizeStatus (Str s) =
     Inr (if (\<exists>pre post. s = pre @ ''S/F'' @ post) then ''SF''
          else if (\<exists>pre post. s = pre @ ''IV'' @ post) then ''IV''
          else if s = ''V'' then ''V''
          else s)
   \<and> ((\<exists>pre post. s = pre @ ''S/F'' @ post) \<and> (\<exists>pre post. s = pre @ ''IV'' @ post)
        \<longrightarrow> normalizeStatus (Str s) = Inr ''SF'')"
  by (simp add: str_includes_iff)

theorem normalizeStatus_first_match_witness:
  "(\<exists>pre post. ''Some S/F IV text'' = pre @ ''S/F'' @ post)
   \<and> (\<exists>pre post. ''Some S/F IV text'' = pre @ ''IV'' @ post)
   \<and> normalizeStatus (Str ''Some S/F IV text'') = Inr ''SF''"
proof -
  have a: "str_includes ''Some S/F IV text'' ''S/F''" by code_simp
  have b: "str_includes ''Some S/F IV text'' ''IV''" by code_simp
  from a have a': "\<exists>pre post. ''Some S/F IV text'' = pre @ ''S/F'' @ post"
    by (simp only: str_includes_iff)
  from b have b': "\<exists>pre post. ''Some S/F IV text'' = pre @ ''IV'' @ post"
    by (simp only: str_includes_iff)
  from a' b' normalizeStatus_first_match [of "''Some S/F IV text''"]
  have "normalizeStatus (Str ''Some S/F IV text'') = Inr ''SF''" by blast
  with a' b' show ?thesis by blast
qed

lemma normalizeStatus_examples:
  "normalizeStatus (Str ''has IV only'') = Inr ''IV''"
  "normalizeStatus (Str ''V'') = Inr ''V''"
  "normalizeStatus (Str ''other'') = Inr ''other''"
  by code_simp+

section \<open>The record emitter\<close>

text \<open>
  What \<^verbatim>\<open>getItemObject\<close> returns: a TypeError when the context has no dimensions row or
  its status is not a string, and otherwise the record, whose id is the concatenation
  without its dots and stars.
\<close>

lemma getItemObject_result:
  "getItemObject r ctx =
     (case dimensions ctx of
        None \<Rightarrow> Inl TypeError
      | Some dims \<Rightarrow>
          (case status ctx of
             Str s \<Rightarrow>
               Inr \<lparr>id_item = filter (\<lambda>c. c \<noteq> CHR ''.'' \<and> c \<noteq> CHR ''*'')
                      (toString (ID_PREFIXES (toString (woodType ctx))) @ toString (width ctx)
                        @ toString (nth_cell dims (findIndex
                            (\<lambda>cell. strict_eq cell (findNextNonEmptyCell r (packIndex ctx))) r))
                        @ ''0''),
                    packId = Number (cell_at r (packIndex ctx)),
                    amount = findNextNonEmptyCell r (packIndex ctx),
                    status_item = (case normalizeStatus (Str s) of Inr st \<Rightarrow> st | Inl e \<Rightarrow> [])\<rparr>
           | _ \<Rightarrow> Inl TypeError))"
proof -
  have strip: "replaceAll CHR ''*'' [] (replaceAll CHR ''.'' [] s) =
      filter (\<lambda>c. c \<noteq> CHR ''.'' \<and> c \<noteq> CHR ''*'') s" for s
    unfolding replaceAll_def by (induction s) auto
  show ?thesis
    unfolding getItemObject_def Let_def strip
    by (cases "status ctx") (auto split: option.splits)
qed

lemma getItemObject_amount:
  "getItemObject r ctx = Inr it \<Longrightarrow> amount it = findNextNonEmptyCell r (packIndex ctx)"
  by (auto simp: getItemObject_def Let_def split: option.splits sum.splits)

lemma getItemObject_row_data: "getItemObject row_data ctx_V = Inr item_data"
  by code_simp

text \<open>
  C7. For every array and index, \<^verbatim>\<open>findNextNonEmptyCell\<close> returns the first truthy
  element at a position strictly greater than the index, skipping the falsy cells, and
  \<^verbatim>\<open>null\<close> when there is none; so the amount of every emitted record is the next
  non-blank cell after the pack index in its row, and \<^verbatim>\<open>null\<close> if there is none.
\<close>

theorem findNextNonEmptyCell_first_truthy:
  "((\<exists>j. index < j \<and> j < int (length array) \<and> truthy (nth_cell array j)) \<longrightarrow>
      (\<exists>j. index < j \<and> j < int (length array) \<and> truthy (nth_cell array j)
          \<and> (\<forall>k. index < k \<and> k < j \<longrightarrow> \<not> truthy (nth_cell array k))
          \<and> findNextNonEmptyCell array (Some index) = nth_cell array j))
   \<and> ((\<forall>j. index < j \<and> j < int (length array) \<longrightarrow> \<not> truthy (nth_cell array j)) \<longrightarrow>
         findNextNonEmptyCell array (Some index) = Null)
   \<and> (getItemObject r ctx = Inr it \<longrightarrow> amount it = findNextNonEmptyCell r (packIndex ctx))"
proof (intro conjI impI)
  assume ex: "\<exists>j. index < j \<and> j < int (length array) \<and> truthy (nth_cell array j)"
  from findNext_loop_cases [of array "index + 1"]
  show "\<exists>j. index < j \<and> j < int (length array) \<and> truthy (nth_cell array j)
          \<and> (\<forall>k. index < k \<and> k < j \<longrightarrow> \<not> truthy (nth_cell array k))
          \<and> findNextNonEmptyCell array (Some index) = nth_cell array j"
  proof
    assume "findNext_loop array (index + 1) = Null \<and>
      (\<forall>k. index + 1 \<le> k \<and> k < int (length array) \<longrightarrow> \<not> truthy (nth_cell array k))"
    with ex have False by force
    then show ?thesis ..
  next
    assume "\<exists>j. index + 1 \<le> j \<and> j < int (length array) \<and> truthy (nth_cell array j) \<and>
         (\<forall>k. index + 1 \<le> k \<and> k < j \<longrightarrow> \<not> truthy (nth_cell array k)) \<and>
         findNext_loop array (index + 1) = nth_cell array j"
    then obtain j where j: "index + 1 \<le> j" "j < int (length array)" "truthy (nth_cell array j)"
      "\<forall>k. index + 1 \<le> k \<and> k < j \<longrightarrow> \<not> truthy (nth_cell array k)"
      "findNext_loop array (index + 1) = nth_cell array j" by blast
    then have "index < j \<and> j < int (length array) \<and> truthy (nth_cell array j)
          \<and> (\<forall>k. index < k \<and> k < j \<longrightarrow> \<not> truthy (nth_cell array k))
          \<and> findNextNonEmptyCell array (Some index) = nth_cell array j"
      by (simp add: findNextNonEmptyCell_def)
    then show ?thesis by blast
  qed
next
  assume "\<forall>j. index < j \<and> j < int (length array) \<longrightarrow> \<not> truthy (nth_cell array j)"
  then have "\<forall>k. index + 1 \<le> k \<and> k < int (length array) \<longrightarrow> \<not> truthy (nth_cell array k)"
    by simp
  then show "findNextNonEmptyCell array (Some index) = Null"
    unfolding findNextNonEmptyCell_def by (simp add: findNext_loop_none)
next
  assume "getItemObject r ctx = Inr it"
  then show "amount it = findNextNonEmptyCell r (packIndex ctx)" by (rule getItemObject_amount)
qed

theorem findNextNonEmptyCell_first_truthy_witness:
  "findNextNonEmptyCell row_holes (Some 0) = Str ''b''
   \<and> findNextNonEmptyCell [Str ''a'', Str []] (Some 0) = Null
   \<and> getItemObject row_data ctx_V = Inr item_data
   \<and> amount item_data = findNextNonEmptyCell row_data (Some 0)"
proof -
  note t = findNextNonEmptyCell_first_truthy
  have h1: "\<exists>j. 0 < j \<and> j < int (length row_holes) \<and> truthy (nth_cell row_holes j)"
    by (rule exI [of _ 3]) (simp add: row_holes_def nth_cell_def)
  with t [of 0 row_holes] obtain j where j: "0 < j" "j < int (length row_holes)"
    "truthy (nth_cell row_holes j)" "findNextNonEmptyCell row_holes (Some 0) = nth_cell row_holes j"
    by blast
  from j(1,2) have "j = 1 \<or> j = 2 \<or> j = 3" by (simp add: row_holes_def) arith
  with j(3) have "j = 3" by (auto simp: row_holes_def nth_cell_def)
  with j(4) have a: "findNextNonEmptyCell row_holes (Some 0) = Str ''b''"
    by (simp add: row_holes_def nth_cell_def)
  have h2: "\<forall>j. 0 < j \<and> j < int (length [Str ''a'', Str []]) \<longrightarrow> \<not> truthy (nth_cell [Str ''a'', Str []] j)"
  proof (intro allI impI)
    fix j :: int assume "0 < j \<and> j < int (length [Str ''a'', Str []])"
    then have "j = 1" by simp
    then show "\<not> truthy (nth_cell [Str ''a'', Str []] j)" by (simp add: nth_cell_def)
  qed
  with t [of 0 "[Str ''a'', Str []]"] have b: "findNextNonEmptyCell [Str ''a'', Str []] (Some 0) = Null"
    by blast
  have c: "getItemObject row_data ctx_V = Inr item_data" by (rule getItemObject_row_data)
  with t [of 0 "[]" row_data ctx_V item_data]
  have "amount item_data = findNextNonEmptyCell row_data (packIndex ctx_V)" by blast
  then have d: "amount item_data = findNextNonEmptyCell row_data (Some 0)" by (simp add: ctx_V_def)
  from a b c d show ?thesis by blast
qed

text \<open>
  C2, as amended. For a record emitted under a context whose wood type was found by the
  section detector, the id is the concatenation of four fragments with every dot and
  star removed: the prefix of the wood type (\<^verbatim>\<open>R1\<close> for redwood,
  \<^verbatim>\<open>W1\<close> for whitewood, the text \<^verbatim>\<open>undefined\<close> for any other wood type), the current
  width, the entry of the dimensions row at the amount's index, and a final character
  \<^verbatim>\<open>0\<close>. Each fragment is rendered by the string conversion, so a lookup that finds
  nothing (the amount's index is \<^verbatim>\<open>-1\<close>, or lies beyond the dimensions row) contributes
  the text \<^verbatim>\<open>undefined\<close>; it raises no error.
\<close>

theorem getItemObject_id:
  assumes "regex_test WOOD_RE (toString (woodType ctx))"
    and "dimensions ctx = Some dims" and "status ctx = Str s"
  shows "\<exists>it. getItemObject r ctx = Inr it
     \<and> id_item it = filter (\<lambda>c. c \<noteq> CHR ''.'' \<and> c \<noteq> CHR ''*'')
         (toString (ID_PREFIXES (toString (woodType ctx))) @ toString (width ctx)
          @ (let amountIndex = findIndex (\<lambda>cell. strict_eq cell (amount it)) r
             in if 0 \<le> amountIndex \<and> amountIndex < int (length dims)
                then toString (dims ! nat amountIndex) else ''undefined'')
          @ ''0'')"
  unfolding getItemObject_result using assms(2,3) by (simp add: nth_cell_def Let_def)

theorem getItemObject_id_witness:
  "regex_test WOOD_RE (toString (woodType ctx_V))
   \<and> dimensions ctx_V = Some row_dims \<and> status ctx_V = Str ''V''
   \<and> getItemObject row_data ctx_V = Inr item_data
   \<and> id_item item_data = filter (\<lambda>c. c \<noteq> CHR ''.'' \<and> c \<noteq> CHR ''*'')
        (''R1'' @ ''50*60'' @ ''200'' @ ''0'')
   \<and> getItemObject [Str ''20231005.2''] ctx_V = Inr item_no_amount
   \<and> id_item item_no_amount = filter (\<lambda>c. c \<noteq> CHR ''.'' \<and> c \<noteq> CHR ''*'')
        (''R1'' @ ''50*60'' @ ''undefined'' @ ''0'')"
proof -
  have w: "regex_test WOOD_RE (toString (woodType ctx_V))" by code_simp
  have d: "dimensions ctx_V = Some row_dims" and s: "status ctx_V = Str ''V''"
    by (simp_all add: ctx_V_def)
  from getItemObject_id [OF w d s, of row_data] obtain it where it: "getItemObject row_data ctx_V = Inr it"
    "id_item it = filter (\<lambda>c. c \<noteq> CHR ''.'' \<and> c \<noteq> CHR ''*'')
         (toString (ID_PREFIXES (toString (woodType ctx_V))) @ toString (width ctx_V)
          @ (let amountIndex = findIndex (\<lambda>cell. strict_eq cell (amount it)) row_data
             in if 0 \<le> amountIndex \<and> amountIndex < int (length row_dims)
                then toString (row_dims ! nat amountIndex) else ''undefined'')
          @ ''0'')" by blast
  have g: "getItemObject row_data ctx_V = Inr item_data" by code_simp
  with it(1) have e: "it = item_data" by simp
  have a: "toString (ID_PREFIXES (toString (woodType ctx_V))) = ''R1''"
    "toString (width ctx_V) = ''50*60''"
    "(let amountIndex = findIndex (\<lambda>cell. strict_eq cell (amount item_data)) row_data
             in if 0 \<le> amountIndex \<and> amountIndex < int (length row_dims)
                then toString (row_dims ! nat amountIndex) else ''undefined'') = ''200''"
    by code_simp+
  from it(2) have i1: "id_item item_data = filter (\<lambda>c. c \<noteq> CHR ''.'' \<and> c \<noteq> CHR ''*'')
        (''R1'' @ ''50*60'' @ ''200'' @ ''0'')"
    unfolding e a .
  have g2: "getItemObject [Str ''20231005.2''] ctx_V = Inr item_no_amount" by code_simp
  have i2: "id_item item_no_amount = filter (\<lambda>c. c \<noteq> CHR ''.'' \<and> c \<noteq> CHR ''*'')
        (''R1'' @ ''50*60'' @ ''undefined'' @ ''0'')" by code_simp
  from w d s g i1 g2 i2 show ?thesis by blast
qed

text \<open>
  C2 as it was stated fails twice on the context of the specification's example. The
  id of the data row is \<^verbatim>\<open>R150602000\<close>, with the final \<^verbatim>\<open>0\<close> of the template, and not
  the concatenation of prefix, width and dimension alone. For a row with no cell after
  the pack id the amount is \<^verbatim>\<open>null\<close>, its index is \<^verbatim>\<open>-1\<close>, and the id is
  \<^verbatim>\<open>R15060undefined0\<close>: the missing lookup contributes the text \<^verbatim>\<open>undefined\<close>, not the
  empty string.
\<close>

theorem getItemObject_id_counterexample:
  "getItemObject row_data ctx_V = Inr item_data
   \<and> toString (ID_PREFIXES (toString (woodType ctx_V))) = ''R1''
   \<and> toString (width ctx_V) = ''50*60''
   \<and> amount item_data = nth_cell row_data 2
   \<and> findIndex (\<lambda>cell. strict_eq cell (amount item_data)) row_data = 2
   \<and> toString (nth_cell row_dims 2) = ''200''
   \<and> id_item item_data = ''R150602000''
   \<and> id_item item_data
       \<noteq> replaceAll CHR ''*'' [] (replaceAll CHR ''.'' [] (''R1'' @ ''50*60'' @ ''200''))
   \<and> getItemObject [Str ''20231005.2''] ctx_V = Inr item_no_amount
   \<and> findIndex (\<lambda>cell. strict_eq cell (amount item_no_amount)) [Str ''20231005.2''] = - 1
   \<and> id_item item_no_amount = ''R15060undefined0''
   \<and> id_item item_no_amount
       \<noteq> replaceAll CHR ''*'' [] (replaceAll CHR ''.'' [] (''R1'' @ ''50*60'' @ []))
   \<and> id_item item_no_amount
       \<noteq> replaceAll CHR ''*'' [] (replaceAll CHR ''.'' [] (''R1'' @ ''50*60'' @ [] @ ''0''))"
  by (intro conjI; code_simp)

section \<open>One row of the scan\<close>

text \<open>
  A row is a section header when \<^verbatim>\<open>find\<close> returns a truthy cell, which is when some
  cell of the row matches the wood type pattern. The two branches of the callback:
\<close>

lemma js_find_is_wood_truthy:
  "truthy (js_find is_wood r) \<longleftrightarrow> (\<exists>c\<in>set r. regex_test WOOD_RE (toString c))"
  by (induction r) (auto simp: is_wood_truthy is_wood_iff [symmetric])

lemma process_row_other:
  assumes "\<forall>c\<in>set r. \<not> regex_test WOOD_RE (toString c)"
  shows "process_row sheetData (r, index) (ctx, out) =
     (let pack = cell_at r (packIndex ctx);
          w = first_cell_at sheetData (index + 1);
          ctx' = (if regex_test WIDTH_RE (toString w) then ctx\<lparr>width := w\<rparr> else ctx)
      in if truthy pack \<and> regex_test PACK_RE (toString pack)
         then (case getItemObject r ctx of
                 Inl e \<Rightarrow> Inl e
               | Inr it \<Rightarrow> Inr (ctx', out @ [it]))
         else Inr (ctx', out))"
proof -
  from assms have "\<not> truthy (js_find is_wood r)" by (simp add: js_find_is_wood_truthy)
  moreover have "truthy w \<and> regex_test WIDTH_RE (toString w) \<longleftrightarrow> regex_test WIDTH_RE (toString w)" for w
    using width_match_truthy by blast
  ultimately show ?thesis by (simp add: process_row_def Let_def)
qed

lemma process_row_header:
  assumes "k < length r" "regex_test WOOD_RE (toString (r ! k))"
    "\<forall>j<k. \<not> regex_test WOOD_RE (toString (r ! j))"
  shows "process_row sheetData (r, index) (ctx, out) =
     Inr (\<lparr>woodType = r ! k,
           width = js_or (first_cell_at sheetData (index + 2)) (Str []),
           status = findNextNonEmptyCell r (Some (int k)),
           dimensions = Some (case row_at sheetData (index + 1) of None \<Rightarrow> [] | Some d \<Rightarrow> d),
           packIndex = Some (findIndex (\<lambda>cell. cell = Str ''PACK'')
             (case row_at sheetData (index + 1) of None \<Rightarrow> [] | Some d \<Rightarrow> d))\<rparr>, out)"
proof -
  from assms have f: "js_find is_wood r = r ! k"
    by (intro js_find_first) (simp_all add: is_wood_iff)
  from assms(2) have w: "is_wood (r ! k)" by (simp add: is_wood_iff)
  then have t: "truthy (js_find is_wood r)" using f by (simp add: is_wood_truthy)
  have "findIndex (\<lambda>cell. strict_eq cell (r ! k)) r = int k"
  proof (rule findIndex_first [OF assms(1)])
    show "strict_eq (r ! k) (r ! k)" using w by (rule is_wood_strict_eq)
    show "\<forall>j<k. \<not> strict_eq (r ! j) (r ! k)"
    proof (intro allI impI notI)
      fix j assume "j < k" "strict_eq (r ! j) (r ! k)"
      then have "r ! j = r ! k" by (simp add: strict_eq_imp_eq)
      with assms(2,3) \<open>j < k\<close> show False by auto
    qed
  qed
  with f t show ?thesis by (simp add: process_row_def Let_def)
qed



text \<open>
  C5, as amended. On a row that is not a section header, the only field of the context
  that can change is the width, which is overwritten with the first cell of the next row
  exactly when the string form of that cell contains a match of the width pattern (one
  or more digits, a star, one or more digits; the test is not anchored, so a cell such
  as \<^verbatim>\<open>ab12*34cd\<close> overwrites the width too); wood type, status, dimensions and pack
  index stay as they were. So the dimensions and the pack index change only on a header
  row, which replaces both.
\<close>

theorem non_header_row_changes_only_width:
  assumes "process_row sheetData (r, index) (ctx, out) = Inr (ctx', out')"
  shows "((\<forall>c\<in>set r. \<not> regex_test WOOD_RE (toString c)) \<longrightarrow>
            ctx' = (if regex_test WIDTH_RE (toString (first_cell_at sheetData (index + 1)))
                    then ctx\<lparr>width := first_cell_at sheetData (index + 1)\<rparr> else ctx)
            \<and> woodType ctx' = woodType ctx \<and> status ctx' = status ctx
            \<and> dimensions ctx' = dimensions ctx \<and> packIndex ctx' = packIndex ctx)
       \<and> (dimensions ctx' \<noteq> dimensions ctx \<or> packIndex ctx' \<noteq> packIndex ctx \<longrightarrow>
            (\<exists>c\<in>set r. regex_test WOOD_RE (toString c)))"
proof -
  have frame: "ctx' = (if regex_test WIDTH_RE (toString (first_cell_at sheetData (index + 1)))
                    then ctx\<lparr>width := first_cell_at sheetData (index + 1)\<rparr> else ctx)"
    if nh: "\<forall>c\<in>set r. \<not> regex_test WOOD_RE (toString c)"
    using assms unfolding process_row_other [OF nh]
    by (auto simp: Let_def split: if_splits sum.splits)
  then have rest: "woodType ctx' = woodType ctx \<and> status ctx' = status ctx
            \<and> dimensions ctx' = dimensions ctx \<and> packIndex ctx' = packIndex ctx"
    if nh: "\<forall>c\<in>set r. \<not> regex_test WOOD_RE (toString c)"
    using nh by (auto split: if_splits)
  from frame rest show ?thesis by blast
qed

theorem non_header_row_changes_only_width_witness:
  "process_row sheet_example (row_dims, 1) (ctx_V\<lparr>width := Str []\<rparr>, []) = Inr (ctx_V, [])
   \<and> \<not> (\<exists>c\<in>set row_dims. regex_test WOOD_RE (toString c))
   \<and> regex_test WIDTH_RE (toString (first_cell_at sheet_example (1 + 1)))
   \<and> ctx_V = ctx_V\<lparr>width := Str [], width := first_cell_at sheet_example (1 + 1)\<rparr>
   \<and> dimensions ctx_V = dimensions (ctx_V\<lparr>width := Str []\<rparr>)
   \<and> packIndex ctx_V = packIndex (ctx_V\<lparr>width := Str []\<rparr>)"
proof -
  have r: "process_row sheet_example (row_dims, 1) (ctx_V\<lparr>width := Str []\<rparr>, []) = Inr (ctx_V, [])"
    by code_simp
  have h: "\<forall>c\<in>set row_dims. \<not> regex_test WOOD_RE (toString c)" by code_simp
  have w: "regex_test WIDTH_RE (toString (first_cell_at sheet_example (1 + 1)))" by code_simp
  from non_header_row_changes_only_width [OF r] h w
  have "ctx_V = ctx_V\<lparr>width := Str [], width := first_cell_at sheet_example (1 + 1)\<rparr>
    \<and> dimensions ctx_V = dimensions (ctx_V\<lparr>width := Str []\<rparr>)
    \<and> packIndex ctx_V = packIndex (ctx_V\<lparr>width := Str []\<rparr>)"
    by simp
  moreover from h have "\<not> (\<exists>c\<in>set row_dims. regex_test WOOD_RE (toString c))" by blast
  ultimately show ?thesis using r w by blast
qed

text \<open>
  C5 as it was stated fails on a sheet whose fourth row starts with the cell
  \<^verbatim>\<open>ab12*34cd\<close>. The cell is not one or more digits, a star and one or more digits: it
  has other characters. The pattern is found inside it all the same, so the third row,
  which is not a section header, overwrites the width with it, and the record of the
  data row gets the id \<^verbatim>\<open>R1ab1234cd2000\<close>.
\<close>

theorem non_header_row_changes_only_width_counterexample:
  "forEach (process_row sheet_width_text) (zip (take 2 sheet_width_text) [0..<2])
       (initial_context, []) = Inr (ctx_V, [])
   \<and> \<not> (\<exists>c\<in>set (sheet_width_text ! 2). regex_test WOOD_RE (toString c))
   \<and> first_cell_at sheet_width_text (2 + 1) = Str ''ab12*34cd''
   \<and> \<not> list_all (\<lambda>c. is_digit c \<or> c = CHR ''*'') ''ab12*34cd''
   \<and> process_row sheet_width_text (sheet_width_text ! 2, 2) (ctx_V, [])
       = Inr (ctx_V\<lparr>width := Str ''ab12*34cd''\<rparr>, [])
   \<and> width (ctx_V\<lparr>width := Str ''ab12*34cd''\<rparr>) \<noteq> width ctx_V
   \<and> processWorkbook wb_width_text = Inr [item_width_text]
   \<and> id_item item_width_text = ''R1ab1234cd2000''"
  by (intro conjI; code_simp)

text \<open>
  C1, as amended. For every row that is not a section header, processed under a context
  whose pack index and dimensions were set by a section header: \<^verbatim>\<open>getItemObject\<close> is
  applied to the row if and only if the cell at the pack index is non-blank and its
  string form contains a match of the pack id pattern (eight digits, a dot, a digit;
  the test is not anchored). Then a record is appended to the output when the context's
  status is a string, and processing fails with a TypeError when it is not. Otherwise
  the output is left as it was. A section header row never emits a record, whatever
  its cell at the pack index holds.
\<close>

theorem data_row_recognition:
  assumes "packIndex ctx = Some p" and "dimensions ctx = Some dims"
  shows "((\<forall>c\<in>set r. \<not> regex_test WOOD_RE (toString c)) \<longrightarrow>
          ((\<exists>ctx' it. process_row sheetData (r, index) (ctx, out) = Inr (ctx', out @ [it])) \<longleftrightarrow>
              truthy (nth_cell r p) \<and> regex_test PACK_RE (toString (nth_cell r p))
              \<and> (\<exists>s. status ctx = Str s))
          \<and> (process_row sheetData (r, index) (ctx, out) = Inl TypeError \<longleftrightarrow>
              truthy (nth_cell r p) \<and> regex_test PACK_RE (toString (nth_cell r p))
              \<and> (\<nexists>s. status ctx = Str s))
          \<and> ((\<exists>ctx'. process_row sheetData (r, index) (ctx, out) = Inr (ctx', out)) \<longleftrightarrow>
              \<not> (truthy (nth_cell r p) \<and> regex_test PACK_RE (toString (nth_cell r p)))))
       \<and> ((\<exists>c\<in>set r. regex_test WOOD_RE (toString c)) \<longrightarrow>
            (\<exists>ctx'. process_row sheetData (r, index) (ctx, out) = Inr (ctx', out)))"
proof (intro conjI impI)
  assume hd: "\<exists>c\<in>set r. regex_test WOOD_RE (toString c)"
  from first_position [OF hd] obtain k where "k < length r"
    "regex_test WOOD_RE (toString (r ! k))" "\<forall>j<k. \<not> regex_test WOOD_RE (toString (r ! j))"
    by blast
  from process_row_header [OF this, of sheetData index ctx out]
  show "\<exists>ctx'. process_row sheetData (r, index) (ctx, out) = Inr (ctx', out)" by blast
next
  assume nh: "\<forall>c\<in>set r. \<not> regex_test WOOD_RE (toString c)"
  have c: "cell_at r (packIndex ctx) = nth_cell r p" using assms(1) by (simp add: cell_at_def)
  have all: "((\<exists>ctx' it. process_row sheetData (r, index) (ctx, out) = Inr (ctx', out @ [it])) \<longleftrightarrow>
              truthy (nth_cell r p) \<and> regex_test PACK_RE (toString (nth_cell r p))
              \<and> (\<exists>s. status ctx = Str s))
          \<and> (process_row sheetData (r, index) (ctx, out) = Inl TypeError \<longleftrightarrow>
              truthy (nth_cell r p) \<and> regex_test PACK_RE (toString (nth_cell r p))
              \<and> (\<nexists>s. status ctx = Str s))
          \<and> ((\<exists>ctx'. process_row sheetData (r, index) (ctx, out) = Inr (ctx', out)) \<longleftrightarrow>
              \<not> (truthy (nth_cell r p) \<and> regex_test PACK_RE (toString (nth_cell r p))))"
  proof (cases "truthy (nth_cell r p) \<and> regex_test PACK_RE (toString (nth_cell r p))")
    case False
    then show ?thesis
      unfolding process_row_other [OF nh] c by (auto simp: Let_def)
  next
    case True
    show ?thesis
    proof (cases "\<exists>s. status ctx = Str s")
      case s: True
      then obtain s where "status ctx = Str s" by blast
      with True assms(2) show ?thesis
        unfolding process_row_other [OF nh] c getItemObject_result
        by (auto simp: Let_def)
    next
      case s: False
      then have "getItemObject r ctx = Inl TypeError"
        unfolding getItemObject_result using assms(2) by (cases "status ctx") auto
      with True s show ?thesis
        unfolding process_row_other [OF nh] c by (auto simp: Let_def)
    qed
  qed
  from all show "(\<exists>ctx' it. process_row sheetData (r, index) (ctx, out) = Inr (ctx', out @ [it])) \<longleftrightarrow>
              truthy (nth_cell r p) \<and> regex_test PACK_RE (toString (nth_cell r p))
              \<and> (\<exists>s. status ctx = Str s)" by blast
  from all show "process_row sheetData (r, index) (ctx, out) = Inl TypeError \<longleftrightarrow>
              truthy (nth_cell r p) \<and> regex_test PACK_RE (toString (nth_cell r p))
              \<and> (\<nexists>s. status ctx = Str s)" by blast
  from all show "(\<exists>ctx'. process_row sheetData (r, index) (ctx, out) = Inr (ctx', out)) \<longleftrightarrow>
              \<not> (truthy (nth_cell r p) \<and> regex_test PACK_RE (toString (nth_cell r p)))" by blast
qed

theorem data_row_recognition_witness:
  "\<not> (\<exists>c\<in>set row_data. regex_test WOOD_RE (toString c))
   \<and> packIndex ctx_V = Some 0 \<and> dimensions ctx_V = Some row_dims
   \<and> truthy (nth_cell row_data 0) \<and> regex_test PACK_RE (toString (nth_cell row_data 0))
   \<and> (\<exists>s. status ctx_V = Str s)
   \<and> (\<exists>ctx' it. process_row sheet_example (row_data, 3) (ctx_V, []) = Inr (ctx', [] @ [it]))
   \<and> process_row sheet_example (row_data, 3) (ctx_V, []) = Inr (ctx_V, [item_data])
   \<and> (\<exists>c\<in>set (sheet_header_pack ! 4). regex_test WOOD_RE (toString c))
   \<and> (\<exists>ctx'. process_row sheet_header_pack (sheet_header_pack ! 4, 4) (ctx_V, [item_data])
          = Inr (ctx', [item_data]))"
proof -
  have h: "\<forall>c\<in>set row_data. \<not> regex_test WOOD_RE (toString c)" by code_simp
  have p: "packIndex ctx_V = Some 0" and d: "dimensions ctx_V = Some row_dims"
    by (simp_all add: ctx_V_def)
  have m: "truthy (nth_cell row_data 0)" "regex_test PACK_RE (toString (nth_cell row_data 0))"
    by code_simp+
  have s: "\<exists>s. status ctx_V = Str s" by (simp add: ctx_V_def)
  from data_row_recognition [OF p d, of row_data sheet_example 3 "[]"] h m s
  have a: "\<exists>ctx' it. process_row sheet_example (row_data, 3) (ctx_V, []) = Inr (ctx', [] @ [it])"
    by blast
  have b: "process_row sheet_example (row_data, 3) (ctx_V, []) = Inr (ctx_V, [item_data])"
    by code_simp
  have hh: "\<exists>c\<in>set (sheet_header_pack ! 4). regex_test WOOD_RE (toString c)" by code_simp
  from data_row_recognition [OF p d, of "sheet_header_pack ! 4" sheet_header_pack 4 "[item_data]"] hh
  have c: "\<exists>ctx'. process_row sheet_header_pack (sheet_header_pack ! 4, 4) (ctx_V, [item_data])
          = Inr (ctx', [item_data])" by blast
  from h have "\<not> (\<exists>c\<in>set row_data. regex_test WOOD_RE (toString c))" by blast
  with a b c hh p d m s show ?thesis by blast
qed

text \<open>
  C1 as it was stated fails on three inputs. In the first sheet the fifth row is a
  section header whose cell at the pack index, \<^verbatim>\<open>20231001.5\<close>, matches the pack id
  pattern: the header branch returns early and no record is emitted for the row. In the
  second sheet the header has no cell after the wood type, the status is \<^verbatim>\<open>null\<close>,
  and the data row raises a TypeError instead of emitting a record. In the third case
  the cell is the number \<^verbatim>\<open>20231005.25\<close>, which is not eight digits, a dot and one
  digit, and a record is emitted all the same, since the pattern is found inside it.
\<close>

theorem data_row_recognition_counterexample:
  "forEach (process_row sheet_header_pack) (zip (take 4 sheet_header_pack) [0..<4])
       (initial_context, []) = Inr (ctx_V, [item_data])
   \<and> packIndex ctx_V = Some 0
   \<and> truthy (nth_cell (sheet_header_pack ! 4) 0)
   \<and> regex_test PACK_RE (toString (nth_cell (sheet_header_pack ! 4) 0))
   \<and> process_row sheet_header_pack (sheet_header_pack ! 4, 4) (ctx_V, [item_data])
       = Inr (ctx_IV, [item_data])
   \<and> forEach (process_row sheet_null_status) (zip (take 3 sheet_null_status) [0..<3])
       (initial_context, []) = Inr (ctx_null, [])
   \<and> packIndex ctx_null = Some 0
   \<and> truthy (nth_cell (sheet_null_status ! 3) 0)
   \<and> regex_test PACK_RE (toString (nth_cell (sheet_null_status ! 3) 0))
   \<and> process_row sheet_null_status (sheet_null_status ! 3, 3) (ctx_null, []) = Inl TypeError
   \<and> toString (nth_cell row_two_decimals 0) = ''20231005.25''
   \<and> length (toString (nth_cell row_two_decimals 0)) \<noteq> 8 + 1 + 1
   \<and> process_row [row_two_decimals] (row_two_decimals, 0) (ctx_V, [])
       = Inr (ctx_V, [item_two_decimals])"
  by (intro conjI; code_simp)

section \<open>The walk over rows and sheets\<close>

lemma forEach_append:
  "forEach f (xs @ ys) s = (case forEach f xs s of Inl e \<Rightarrow> Inl e | Inr s' \<Rightarrow> forEach f ys s')"
  by (induction xs arbitrary: s) (auto split: sum.splits)

lemma forEach_invariant:
  assumes "\<And>x s. x \<in> set xs \<Longrightarrow> I s \<Longrightarrow> \<exists>s'. f x s = Inr s' \<and> I s'" and "I s"
  shows "\<exists>s'. forEach f xs s = Inr s' \<and> I s'"
  using assms
proof (induction xs arbitrary: s)
  case Nil
  then show ?case by simp
next
  case (Cons x xs)
  from Cons.prems obtain s1 where s1: "f x s = Inr s1" "I s1" by (meson list.set_intros(1))
  have "\<exists>s'. forEach f xs s1 = Inr s' \<and> I s'"
  proof (rule Cons.IH)
    show "\<exists>s'. f y t = Inr s' \<and> I s'" if "y \<in> set xs" "I t" for y t
      using that Cons.prems(1) by simp
    show "I s1" by (rule s1)
  qed
  with s1 show ?case by simp
qed

lemma forEach_preserves:
  assumes "\<And>x s s'. x \<in> set xs \<Longrightarrow> I s \<Longrightarrow> f x s = Inr s' \<Longrightarrow> I s'"
    and "I s" and "forEach f xs s = Inr s'"
  shows "I s'"
  using assms
proof (induction xs arbitrary: s)
  case Nil
  then show ?case by simp
next
  case (Cons x xs)
  from Cons.prems(3) obtain s1 where s1: "f x s = Inr s1" "forEach f xs s1 = Inr s'"
    by (auto split: sum.splits)
  from Cons.prems(1) [of x s s1] Cons.prems(2) s1(1) have "I s1" by simp
  show ?case
  proof (rule Cons.IH [OF _ \<open>I s1\<close> s1(2)])
    show "I t'" if "y \<in> set xs" "I t" "f y t = Inr t'" for y t t'
      using Cons.prems(1) [of y t t'] that by simp
  qed
qed

lemma zip_index_split:
  assumes "i < length xs"
  shows "zip xs [0..<length xs] =
     zip (take i xs) [0..<i] @ (xs ! i, i) # zip (drop (Suc i) xs) [Suc i..<length xs]"
proof -
  have u: "[0..<length xs] = [0..<i] @ i # [Suc i..<length xs]"
    using assms by (metis less_imp_le_nat upt_add_eq_append upt_conv_Cons le0 add_0 le_add_diff_inverse)
  have x: "xs = take i xs @ xs ! i # drop (Suc i) xs"
    using assms by (simp add: id_take_nth_drop)
  have "zip xs [0..<length xs] =
      zip (take i xs @ xs ! i # drop (Suc i) xs) ([0..<i] @ i # [Suc i..<length xs])"
    using u x by simp
  also have "\<dots> = zip (take i xs) [0..<i] @ zip (xs ! i # drop (Suc i) xs) (i # [Suc i..<length xs])"
    using assms by (intro zip_append) simp
  finally show ?thesis by simp
qed

text \<open>
  Every context that the walk reaches has a dimensions row whenever it has a pack
  index; and over rows none of which is a section header only the width changes.
\<close>

lemma process_row_inv:
  assumes "process_row sheetData x (ctx, out) = Inr (ctx', out')"
    and "packIndex ctx \<noteq> None \<longrightarrow> dimensions ctx \<noteq> None"
  shows "packIndex ctx' \<noteq> None \<longrightarrow> dimensions ctx' \<noteq> None"
proof -
  obtain r index where x: "x = (r, index)" by (cases x)
  show ?thesis
  proof (cases "\<exists>c\<in>set r. regex_test WOOD_RE (toString c)")
    case True
    from first_position [OF True] obtain k where "k < length r"
      "regex_test WOOD_RE (toString (r ! k))" "\<forall>j<k. \<not> regex_test WOOD_RE (toString (r ! j))"
      by blast
    from process_row_header [OF this, of sheetData index ctx out] assms(1) x
    show ?thesis by auto
  next
    case False
    then have nh: "\<forall>c\<in>set r. \<not> regex_test WOOD_RE (toString c)" by simp
    from assms show ?thesis
      unfolding x process_row_other [OF nh]
      by (auto simp: Let_def split: if_splits sum.splits)
  qed
qed

lemma reachable_inv:
  assumes "forEach (process_sheet wb) names (initial_context, []) = Inr (ctx, out)"
  shows "packIndex ctx \<noteq> None \<longrightarrow> dimensions ctx \<noteq> None"
proof -
  define I :: "parse_context \<times> item list \<Rightarrow> bool"
    where "I = (\<lambda>st. packIndex (fst st) \<noteq> None \<longrightarrow> dimensions (fst st) \<noteq> None)"
  have row: "I s'" if "I s" "process_row sheetData x s = Inr s'" for sheetData x s s'
    using process_row_inv [of sheetData x "fst s" "snd s" "fst s'" "snd s'"] that
    by (simp add: I_def)
  have sheet: "I s'" if "I s" "process_sheet wb name s = Inr s'" for name s s'
  proof (rule forEach_preserves [where I = I])
    show "forEach (process_row (sheet_to_json (Sheets wb name)))
        (zip (sheet_to_json (Sheets wb name)) [0..<length (sheet_to_json (Sheets wb name))]) s = Inr s'"
      using that(2) by (simp add: process_sheet_def Let_def)
    show "I s" by (rule that(1))
    show "I t'" if "I t" "process_row (sheet_to_json (Sheets wb name)) y t = Inr t'" for y t t'
      using that by (rule row)
  qed
  have "I (ctx, out)"
  proof (rule forEach_preserves [where I = I])
    show "forEach (process_sheet wb) names (initial_context, []) = Inr (ctx, out)" by (rule assms)
    show "I (initial_context, [])" by (simp add: I_def initial_context_def)
    show "I t'" if "I t" "process_sheet wb y t = Inr t'" for y t t'
      using that by (rule sheet)
  qed
  then show ?thesis by (simp add: I_def)
qed

lemma rows_frame:
  assumes "\<forall>x\<in>set rows. \<forall>c\<in>set (fst x). \<not> regex_test WOOD_RE (toString c)"
    and "forEach (process_row sheetData) rows (ctx, out) = Inr (ctx', out')"
  shows "ctx' = ctx\<lparr>width := width ctx'\<rparr>"
proof -
  define I :: "parse_context \<times> item list \<Rightarrow> bool"
    where "I = (\<lambda>st. fst st = ctx\<lparr>width := width (fst st)\<rparr>)"
  have step: "I s'" if "x \<in> set rows" "I s" "process_row sheetData x s = Inr s'" for x s s'
  proof -
    obtain r index where x: "x = (r, index)" by (cases x)
    obtain c1 o1 where s: "s = (c1, o1)" by (cases s)
    obtain c2 o2 where s': "s' = (c2, o2)" by (cases s')
    from that(1) assms(1) x have nh: "\<forall>c\<in>set r. \<not> regex_test WOOD_RE (toString c)" by auto
    from that(3) have c2: "c2 = c1 \<or> (\<exists>w. c2 = c1\<lparr>width := w\<rparr>)"
      unfolding x s s' process_row_other [OF nh]
      by (auto simp: Let_def split: if_splits sum.splits)
    from that(2) s have c1: "c1 = ctx\<lparr>width := width c1\<rparr>" by (simp add: I_def)
    from c2 have "c2 = ctx\<lparr>width := width c2\<rparr>"
    proof
      assume "c2 = c1"
      with c1 show ?thesis by simp
    next
      assume "\<exists>w. c2 = c1\<lparr>width := w\<rparr>"
      then obtain w where "c2 = c1\<lparr>width := w\<rparr>" by blast
      with c1 have "c2 = ctx\<lparr>width := width c1, width := w\<rparr>" by simp
      then have "c2 = ctx\<lparr>width := w\<rparr>" by simp
      then show ?thesis by simp
    qed
    then show ?thesis by (simp add: I_def s')
  qed
  have "I (ctx', out')"
  proof (rule forEach_preserves [where I = I])
    show "forEach (process_row sheetData) rows (ctx, out) = Inr (ctx', out')" by (rule assms(2))
    show "I (ctx, out)" by (simp add: I_def)
    show "I t'" if "y \<in> set rows" "I t" "process_row sheetData y t = Inr t'" for y t t'
      using that by (rule step)
  qed
  then show ?thesis by (simp add: I_def)
qed

text \<open>
  Over rows none of which is a section header or is followed by a width row, the
  context stays as it was.
\<close>

lemma rows_same_context:
  assumes i: "i < length sheetData"
    and nh: "\<forall>r\<in>set (take i sheetData). \<forall>c\<in>set r. \<not> regex_test WOOD_RE (toString c)"
    and nw: "\<forall>r\<in>set (drop 1 (take (Suc i) sheetData)). \<not> regex_test WIDTH_RE (toString (nth_cell r 0))"
    and run: "forEach (process_row sheetData) (zip (take i sheetData) [0..<i]) (ctx, out) = Inr (ctx', out')"
  shows "ctx' = ctx"
proof -
  define I :: "parse_context \<times> item list \<Rightarrow> bool" where "I = (\<lambda>st. fst st = ctx)"
  have step: "I s'"
    if x: "x \<in> set (zip (take i sheetData) [0..<i])" and s: "I s"
      and p: "process_row sheetData x s = Inr s'" for x s s'
  proof -
    from x obtain m where m: "take i sheetData ! m = fst x" "[0..<i] ! m = snd x"
      "m < length (take i sheetData)" "m < length [0..<i]"
      unfolding in_set_zip by blast
    from m(4) have mi: "m < i" by simp
    with m(1,2) have "fst x = sheetData ! m" "snd x = m" by simp_all
    then have "x = (sheetData ! m, m)" by (cases x) simp
    with mi obtain n where n: "n < i" "x = (sheetData ! n, n)" by blast
    obtain c1 o1 where s1: "s = (c1, o1)" by (cases s)
    from n(1) i have "sheetData ! n \<in> set (take i sheetData)"
      by (metis in_set_conv_nth length_take less_imp_le_nat min.absorb2 nth_take)
    with nh have nhr: "\<forall>c\<in>set (sheetData ! n). \<not> regex_test WOOD_RE (toString c)" by blast
    from n(1) i have len: "length (drop 1 (take (Suc i) sheetData)) = i" by simp
    from n(1) i have "drop 1 (take (Suc i) sheetData) ! n = sheetData ! (n + 1)" by simp
    with len n(1) have "sheetData ! (n + 1) \<in> set (drop 1 (take (Suc i) sheetData))"
      by (metis nth_mem)
    with nw have "\<not> regex_test WIDTH_RE (toString (nth_cell (sheetData ! (n + 1)) 0))" by blast
    moreover from n(1) i have "first_cell_at sheetData (n + 1) = nth_cell (sheetData ! (n + 1)) 0"
      by (simp add: first_cell_at_def row_at_def)
    ultimately have w: "\<not> regex_test WIDTH_RE (toString (first_cell_at sheetData (n + 1)))" by simp
    from p have "fst s' = c1"
      unfolding n(2) s1 process_row_other [OF nhr] using w
      by (auto simp: Let_def split: if_splits sum.splits)
    with s s1 show ?thesis by (simp add: I_def)
  qed
  have "I (ctx', out')"
  proof (rule forEach_preserves [where I = I])
    show "forEach (process_row sheetData) (zip (take i sheetData) [0..<i]) (ctx, out) = Inr (ctx', out')"
      by (rule run)
    show "I (ctx, out)" by (simp add: I_def)
    show "I t'" if "y \<in> set (zip (take i sheetData) [0..<i])" "I t" "process_row sheetData y t = Inr t'"
      for y t t' using that by (rule step)
  qed
  then show ?thesis by (simp add: I_def)
qed

text \<open>
  C8. For a workbook in which no row is a section header, processing completes without
  an error and emits no record: the pack index is never set, so every row fails the data
  row test and is skipped, and the output list is empty.
\<close>

theorem no_header_no_records:
  assumes "\<forall>name\<in>set (SheetNames wb). \<forall>r\<in>set (sheet_to_json (Sheets wb name)).
             \<forall>c\<in>set r. \<not> regex_test WOOD_RE (toString c)"
  shows "processWorkbook wb = Inr []"
proof -
  define I :: "parse_context \<times> item list \<Rightarrow> bool"
    where "I = (\<lambda>st. packIndex (fst st) = None \<and> snd st = [])"
  have row: "\<exists>s'. process_row sheetData x st = Inr s' \<and> I s'"
    if "\<forall>c\<in>set (fst x). \<not> regex_test WOOD_RE (toString c)" "I st" for sheetData x st
  proof -
    obtain r index where x: "x = (r, index)" by (cases x)
    obtain ctx out where st: "st = (ctx, out)" by (cases st)
    from that(2) st have p: "packIndex ctx = None" "out = []" by (simp_all add: I_def)
    from that(1) x have nh: "\<forall>c\<in>set r. \<not> regex_test WOOD_RE (toString c)" by simp
    show ?thesis
      unfolding x st process_row_other [OF nh] using p
      by (simp add: cell_at_def Let_def I_def)
  qed
  have sheet: "\<exists>s'. process_sheet wb name st = Inr s' \<and> I s'"
    if "name \<in> set (SheetNames wb)" "I st" for name st
    unfolding process_sheet_def Let_def
  proof (rule forEach_invariant [where I = I])
    fix x s
    assume "x \<in> set (zip (sheet_to_json (Sheets wb name)) [0..<length (sheet_to_json (Sheets wb name))])"
      and "I s"
    then have "fst x \<in> set (sheet_to_json (Sheets wb name))"
      by (metis prod.collapse set_zip_leftD)
    with assms that(1) have "\<forall>c\<in>set (fst x). \<not> regex_test WOOD_RE (toString c)" by blast
    then show "\<exists>s'. process_row (sheet_to_json (Sheets wb name)) x s = Inr s' \<and> I s'"
      using \<open>I s\<close> by (rule row)
  qed (rule that(2))
  have "I (initial_context, [])" by (simp add: I_def initial_context_def)
  with sheet have "\<exists>s'. forEach (process_sheet wb) (SheetNames wb) (initial_context, []) = Inr s' \<and> I s'"
    by (intro forEach_invariant [where I = I]) auto
  then show ?thesis by (auto simp: processWorkbook_def I_def)
qed

theorem no_header_no_records_witness:
  "\<not> (\<exists>name\<in>set (SheetNames wb_no_header). \<exists>r\<in>set (sheet_to_json (Sheets wb_no_header name)).
             \<exists>c\<in>set r. regex_test WOOD_RE (toString c))
   \<and> processWorkbook wb_no_header = Inr []"
proof -
  have h: "\<forall>name\<in>set (SheetNames wb_no_header). \<forall>r\<in>set (sheet_to_json (Sheets wb_no_header name)).
             \<forall>c\<in>set r. \<not> regex_test WOOD_RE (toString c)"
    by code_simp
  from no_header_no_records [OF h] h show ?thesis by blast
qed

text \<open>
  C4, as amended. The context is not reset at a sheet boundary: the later sheet starts
  from the context and the output that the earlier sheets left. A row of the later
  sheet, with no section header in that sheet up to and including it, whose cell at the
  carried pack index matches the pack id pattern, is processed with the earlier sheets'
  wood type, dimensions, status and pack index and with the width current at that row
  (the earlier sheets' width unless a width row of the later sheet has overwritten it).
  It emits the record built from these when the carried status is a string, and
  processing fails with a TypeError when it is not.
\<close>

theorem context_persists_across_sheets:
  assumes earlier: "forEach (process_sheet wb) earlier (initial_context, []) = Inr (ctx1, out1)"
    and sd: "sheetData = sheet_to_json (Sheets wb later)"
    and i: "i < length sheetData"
    and nh: "\<forall>r\<in>set (take (Suc i) sheetData). \<forall>c\<in>set r. \<not> regex_test WOOD_RE (toString c)"
    and before: "forEach (process_row sheetData) (zip (take i sheetData) [0..<i]) (ctx1, out1)
                   = Inr (ctxi, outi)"
    and pack: "truthy (cell_at (sheetData ! i) (packIndex ctx1))"
      "regex_test PACK_RE (toString (cell_at (sheetData ! i) (packIndex ctx1)))"
  shows "forEach (process_sheet wb) (earlier @ later # rest) (initial_context, []) =
           (case process_sheet wb later (ctx1, out1) of
              Inl e \<Rightarrow> Inl e | Inr st \<Rightarrow> forEach (process_sheet wb) rest st)
     \<and> process_sheet wb later (ctx1, out1) =
           (case process_row sheetData (sheetData ! i, i) (ctxi, outi) of
              Inl e \<Rightarrow> Inl e
            | Inr st \<Rightarrow> forEach (process_row sheetData)
                         (zip (drop (Suc i) sheetData) [Suc i..<length sheetData]) st)
     \<and> ctxi = ctx1\<lparr>width := width ctxi\<rparr>
     \<and> ((\<exists>s. status ctx1 = Str s) \<longrightarrow>
          (\<exists>it ctx'. process_row sheetData (sheetData ! i, i) (ctxi, outi) = Inr (ctx', outi @ [it])
             \<and> getItemObject (sheetData ! i) (ctx1\<lparr>width := width ctxi\<rparr>) = Inr it))
     \<and> ((\<nexists>s. status ctx1 = Str s) \<longrightarrow>
          process_row sheetData (sheetData ! i, i) (ctxi, outi) = Inl TypeError)
     \<and> ((\<forall>r\<in>set (drop 1 (take (Suc i) sheetData)).
            \<not> regex_test WIDTH_RE (toString (nth_cell r 0))) \<longrightarrow> ctxi = ctx1)"
proof (intro conjI impI)
  show "forEach (process_sheet wb) (earlier @ later # rest) (initial_context, []) =
           (case process_sheet wb later (ctx1, out1) of
              Inl e \<Rightarrow> Inl e | Inr st \<Rightarrow> forEach (process_sheet wb) rest st)"
    by (simp add: forEach_append earlier)
  show "process_sheet wb later (ctx1, out1) =
           (case process_row sheetData (sheetData ! i, i) (ctxi, outi) of
              Inl e \<Rightarrow> Inl e
            | Inr st \<Rightarrow> forEach (process_row sheetData)
                         (zip (drop (Suc i) sheetData) [Suc i..<length sheetData]) st)"
    unfolding process_sheet_def Let_def sd [symmetric]
    by (subst zip_index_split [OF i]) (simp add: forEach_append before)
  have "\<forall>x\<in>set (zip (take i sheetData) [0..<i]). \<forall>c\<in>set (fst x). \<not> regex_test WOOD_RE (toString c)"
  proof
    fix x assume "x \<in> set (zip (take i sheetData) [0..<i])"
    then have "fst x \<in> set (take i sheetData)" by (metis prod.collapse set_zip_leftD)
    then have "fst x \<in> set (take (Suc i) sheetData)"
      by (meson le_SucI order_refl set_take_subset_set_take subsetD)
    with nh show "\<forall>c\<in>set (fst x). \<not> regex_test WOOD_RE (toString c)" by blast
  qed
  from rows_frame [OF this before] show frame: "ctxi = ctx1\<lparr>width := width ctxi\<rparr>" .
  from i have "sheetData ! i \<in> set (take (Suc i) sheetData)"
    by (metis in_set_conv_nth length_take lessI min_less_iff_conj nth_take)
  with nh have nhi: "\<forall>c\<in>set (sheetData ! i). \<not> regex_test WOOD_RE (toString c)" by blast
  from frame have pi: "packIndex ctxi = packIndex ctx1" and di: "dimensions ctxi = dimensions ctx1"
    and si: "status ctxi = status ctx1"
    by (metis parse_context.select_convs parse_context.surjective parse_context.update_convs(2))+
  from pack(1) obtain p where p: "packIndex ctx1 = Some p" by (cases "packIndex ctx1") (auto simp: cell_at_def)
  with reachable_inv [OF earlier] obtain dims where d: "dimensions ctx1 = Some dims" by auto
  have row: "process_row sheetData (sheetData ! i, i) (ctxi, outi) =
      (case getItemObject (sheetData ! i) ctxi of
         Inl e \<Rightarrow> Inl e
       | Inr it \<Rightarrow> Inr (if regex_test WIDTH_RE (toString (first_cell_at sheetData (i + 1)))
                        then ctxi\<lparr>width := first_cell_at sheetData (i + 1)\<rparr> else ctxi, outi @ [it]))"
    unfolding process_row_other [OF nhi] Let_def pi using pack by (simp only: simp_thms if_True)
  {
    assume "\<exists>s. status ctx1 = Str s"
    then obtain s where s: "status ctx1 = Str s" by blast
    with d si di obtain it where it: "getItemObject (sheetData ! i) ctxi = Inr it"
      unfolding getItemObject_result by simp
    with frame have "getItemObject (sheetData ! i) (ctx1\<lparr>width := width ctxi\<rparr>) = Inr it" by simp
    with row it
    show "\<exists>it ctx'. process_row sheetData (sheetData ! i, i) (ctxi, outi) = Inr (ctx', outi @ [it])
             \<and> getItemObject (sheetData ! i) (ctx1\<lparr>width := width ctxi\<rparr>) = Inr it"
      by simp
  }
  {
    assume "\<nexists>s. status ctx1 = Str s"
    with si have "getItemObject (sheetData ! i) ctxi = Inl TypeError"
      unfolding getItemObject_result by (cases "status ctx1") (auto split: option.splits)
    with row show "process_row sheetData (sheetData ! i, i) (ctxi, outi) = Inl TypeError" by simp
  }
  {
    assume nw: "\<forall>r\<in>set (drop 1 (take (Suc i) sheetData)).
      \<not> regex_test WIDTH_RE (toString (nth_cell r 0))"
    have "set (take i sheetData) \<subseteq> set (take (Suc i) sheetData)"
      by (rule set_take_subset_set_take) simp
    with nh have "\<forall>r\<in>set (take i sheetData). \<forall>c\<in>set r. \<not> regex_test WOOD_RE (toString c)"
      by blast
    from rows_same_context [OF i this nw before] show "ctxi = ctx1" .
  }
qed

theorem context_persists_across_sheets_witness:
  "forEach (process_sheet wb_two_sheets) [''Sheet1''] (initial_context, []) = Inr (ctx_V, [])
   \<and> sheet_two = sheet_to_json (Sheets wb_two_sheets ''Sheet2'')
   \<and> 2 < length sheet_two
   \<and> \<not> (\<exists>r\<in>set (take (Suc 2) sheet_two). \<exists>c\<in>set r. regex_test WOOD_RE (toString c))
   \<and> forEach (process_row sheet_two) (zip (take 2 sheet_two) [0..<2]) (ctx_V, [])
       = Inr (ctx_V\<lparr>width := Str ''70*80''\<rparr>, [])
   \<and> truthy (cell_at (sheet_two ! 2) (packIndex ctx_V))
   \<and> regex_test PACK_RE (toString (cell_at (sheet_two ! 2) (packIndex ctx_V)))
   \<and> (\<exists>s. status ctx_V = Str s)
   \<and> (\<exists>it ctx'. process_row sheet_two (sheet_two ! 2, 2) (ctx_V\<lparr>width := Str ''70*80''\<rparr>, [])
          = Inr (ctx', [] @ [it])
        \<and> getItemObject (sheet_two ! 2) (ctx_V\<lparr>width := width (ctx_V\<lparr>width := Str ''70*80''\<rparr>)\<rparr>) = Inr it)
   \<and> processWorkbook wb_two_sheets = Inr [item_two]
   \<and> forEach (process_sheet wb_two_plain) [''Sheet1''] (initial_context, []) = Inr (ctx_V, [])
   \<and> sheet_plain = sheet_to_json (Sheets wb_two_plain ''Sheet2'')
   \<and> 1 < length sheet_plain
   \<and> \<not> (\<exists>r\<in>set (take (Suc 1) sheet_plain). \<exists>c\<in>set r. regex_test WOOD_RE (toString c))
   \<and> \<not> (\<exists>r\<in>set (drop 1 (take (Suc 1) sheet_plain)). regex_test WIDTH_RE (toString (nth_cell r 0)))
   \<and> forEach (process_row sheet_plain) (zip (take 1 sheet_plain) [0..<1]) (ctx_V, [])
       = Inr (ctx_V, [])
   \<and> (\<exists>it ctx'. process_row sheet_plain (sheet_plain ! 1, 1) (ctx_V, []) = Inr (ctx', [] @ [it])
      \<and> getItemObject (sheet_plain ! 1) (ctx_V\<lparr>width := width ctx_V\<rparr>) = Inr it)
   \<and> processWorkbook wb_two_plain = Inr [item_data]
   \<and> forEach (process_sheet wb_two_null) [''Sheet1''] (initial_context, []) = Inr (ctx_null, [])
   \<and> (\<nexists>s. status ctx_null = Str s)
   \<and> process_row [row_data] ([row_data] ! 0, 0) (ctx_null, []) = Inl TypeError"
proof -
  have a: "forEach (process_sheet wb_two_sheets) [''Sheet1''] (initial_context, []) = Inr (ctx_V, [])"
    by code_simp
  have b: "sheet_two = sheet_to_json (Sheets wb_two_sheets ''Sheet2'')" by code_simp
  have c: "2 < length sheet_two" by code_simp
  have d: "\<forall>r\<in>set (take (Suc 2) sheet_two). \<forall>c\<in>set r. \<not> regex_test WOOD_RE (toString c)"
    by code_simp
  have e: "forEach (process_row sheet_two) (zip (take 2 sheet_two) [0..<2]) (ctx_V, [])
       = Inr (ctx_V\<lparr>width := Str ''70*80''\<rparr>, [])" by code_simp
  have f: "truthy (cell_at (sheet_two ! 2) (packIndex ctx_V))"
    "regex_test PACK_RE (toString (cell_at (sheet_two ! 2) (packIndex ctx_V)))" by code_simp+
  have g: "\<exists>s. status ctx_V = Str s" by (simp add: ctx_V_def)
  from context_persists_across_sheets [OF a b c d e f, of "[]"] g
  have r1: "\<exists>it ctx'. process_row sheet_two (sheet_two ! 2, 2) (ctx_V\<lparr>width := Str ''70*80''\<rparr>, [])
          = Inr (ctx', [] @ [it])
        \<and> getItemObject (sheet_two ! 2) (ctx_V\<lparr>width := width (ctx_V\<lparr>width := Str ''70*80''\<rparr>)\<rparr>) = Inr it"
    by blast
  have r2: "processWorkbook wb_two_sheets = Inr [item_two]" by code_simp
  from d have d': "\<not> (\<exists>r\<in>set (take (Suc 2) sheet_two). \<exists>c\<in>set r. regex_test WOOD_RE (toString c))"
    by blast
  have a2: "forEach (process_sheet wb_two_plain) [''Sheet1''] (initial_context, []) = Inr (ctx_V, [])"
    by code_simp
  have b2: "sheet_plain = sheet_to_json (Sheets wb_two_plain ''Sheet2'')" by code_simp
  have c2: "1 < length sheet_plain" by code_simp
  have d2: "\<forall>r\<in>set (take (Suc 1) sheet_plain). \<forall>c\<in>set r. \<not> regex_test WOOD_RE (toString c)"
    by code_simp
  have w2: "\<forall>r\<in>set (drop 1 (take (Suc 1) sheet_plain)). \<not> regex_test WIDTH_RE (toString (nth_cell r 0))"
    by code_simp
  have e2: "forEach (process_row sheet_plain) (zip (take 1 sheet_plain) [0..<1]) (ctx_V, [])
       = Inr (ctx_V, [])" by code_simp
  have f2: "truthy (cell_at (sheet_plain ! 1) (packIndex ctx_V))"
    "regex_test PACK_RE (toString (cell_at (sheet_plain ! 1) (packIndex ctx_V)))" by code_simp+
  from context_persists_across_sheets [OF a2 b2 c2 d2 e2 f2, of "[]"] w2 g
  have r3: "\<exists>it ctx'. process_row sheet_plain (sheet_plain ! 1, 1) (ctx_V, []) = Inr (ctx', [] @ [it])
      \<and> getItemObject (sheet_plain ! 1) (ctx_V\<lparr>width := width ctx_V\<rparr>) = Inr it"
    by blast
  have r4: "processWorkbook wb_two_plain = Inr [item_data]" by code_simp
  from d2 have d2': "\<not> (\<exists>r\<in>set (take (Suc 1) sheet_plain). \<exists>c\<in>set r. regex_test WOOD_RE (toString c))"
    by blast
  from w2 have w2': "\<not> (\<exists>r\<in>set (drop 1 (take (Suc 1) sheet_plain)). regex_test WIDTH_RE (toString (nth_cell r 0)))"
    by blast
  have a3: "forEach (process_sheet wb_two_null) [''Sheet1''] (initial_context, []) = Inr (ctx_null, [])"
    by code_simp
  have b3: "[row_data] = sheet_to_json (Sheets wb_two_null ''Sheet2'')" by code_simp
  have c3: "0 < length [row_data]" by simp
  have d3: "\<forall>r\<in>set (take (Suc 0) [row_data]). \<forall>c\<in>set r. \<not> regex_test WOOD_RE (toString c)"
    by code_simp
  have e3: "forEach (process_row [row_data]) (zip (take 0 [row_data]) [0..<0]) (ctx_null, [])
       = Inr (ctx_null, [])" by simp
  have f3: "truthy (cell_at ([row_data] ! 0) (packIndex ctx_null))"
    "regex_test PACK_RE (toString (cell_at ([row_data] ! 0) (packIndex ctx_null)))" by code_simp+
  have g3: "\<nexists>s. status ctx_null = Str s" by (simp add: ctx_null_def)
  from context_persists_across_sheets [OF a3 b3 c3 d3 e3 f3, of "[]"] g3
  have r5: "process_row [row_data] ([row_data] ! 0, 0) (ctx_null, []) = Inl TypeError" by blast
  from a b c d' e f g r1 r2 a2 b2 c2 d2' w2' e2 r3 r4 a3 g3 r5 show ?thesis by blast
qed

text \<open>
  C4 as it was stated fails on two workbooks. In the first, the second sheet has a
  width row (\<^verbatim>\<open>70*80\<close>) before its data row: the emitted record has the id
  \<^verbatim>\<open>R170802000\<close>, built from the second sheet's width, and is not the record that the
  first sheet's context (width \<^verbatim>\<open>50*60\<close>) gives. In the second, the header of the first
  sheet leaves the status \<^verbatim>\<open>null\<close>, and the data row of the second sheet raises a
  TypeError instead of emitting a record.
\<close>

theorem context_persists_across_sheets_counterexample:
  "forEach (process_sheet wb_two_sheets) [''Sheet1''] (initial_context, []) = Inr (ctx_V, [])
   \<and> width ctx_V = Str ''50*60''
   \<and> sheet_to_json (Sheets wb_two_sheets ''Sheet2'') = sheet_two
   \<and> \<not> (\<exists>r\<in>set sheet_two. \<exists>c\<in>set r. regex_test WOOD_RE (toString c))
   \<and> sheet_two ! 2 = row_data
   \<and> truthy (cell_at row_data (packIndex ctx_V))
   \<and> regex_test PACK_RE (toString (cell_at row_data (packIndex ctx_V)))
   \<and> processWorkbook wb_two_sheets = Inr [item_two]
   \<and> id_item item_two = ''R170802000''
   \<and> getItemObject row_data ctx_V = Inr item_data
   \<and> item_two \<noteq> item_data
   \<and> forEach (process_sheet wb_two_null) [''Sheet1''] (initial_context, []) = Inr (ctx_null, [])
   \<and> sheet_to_json (Sheets wb_two_null ''Sheet2'') = [row_data]
   \<and> truthy (cell_at row_data (packIndex ctx_null))
   \<and> regex_test PACK_RE (toString (cell_at row_data (packIndex ctx_null)))
   \<and> process_sheet wb_two_null ''Sheet2'' (ctx_null, []) = Inl TypeError
   \<and> processWorkbook wb_two_null = Inl TypeError"
  by (intro conjI; code_simp)

section \<open>Export\<close>

text \<open>
  C9. \<^verbatim>\<open>exportToExcel\<close> on the empty list shows the notice that there is nothing to
  export and writes no file; on a non-empty list it writes one file with exactly one
  sheet, named \<^verbatim>\<open>Processed Data\<close>, whose header row is \<^verbatim>\<open>id\<close>, \<^verbatim>\<open>packId\<close>,
  \<^verbatim>\<open>amount\<close>, \<^verbatim>\<open>status\<close> in this order, followed by one row per record.
\<close>

theorem exportToExcel_effects:
  "exportToExcel [] = [Alert ''No data to export!'']
   \<and> (data \<noteq> [] \<longrightarrow>
        (\<exists>body. exportToExcel data =
            [WriteFile [(''Processed Data'',
                map FString [''id'', ''packId'', ''amount'', ''status''] # body)]
               ''processed_output.xlsx'']
          \<and> length body = length data))"
  by (cases data)
    (simp_all add: exportToExcel_def json_to_sheet_def book_new_def book_append_sheet_def
      Object_entries_def)

theorem exportToExcel_effects_witness:
  "[item_data] \<noteq> []
   \<and> exportToExcel [item_data] =
       [WriteFile [(''Processed Data'',
          [map FString [''id'', ''packId'', ''amount'', ''status''],
           [FString ''R150602000'', FNumber (Number (Str ''20231005.2'')), FCell (Str ''150''),
            FString ''V'']])] ''processed_output.xlsx'']"
proof -
  have h: "[item_data] \<noteq> []" by simp
  with exportToExcel_effects [of "[item_data]"] obtain body where
    "exportToExcel [item_data] =
       [WriteFile [(''Processed Data'', map FString [''id'', ''packId'', ''amount'', ''status''] # body)]
          ''processed_output.xlsx'']" by blast
  moreover have "exportToExcel [item_data] =
       [WriteFile [(''Processed Data'',
          [map FString [''id'', ''packId'', ''amount'', ''status''],
           [FString ''R150602000'', FNumber (Number (Str ''20231005.2'')), FCell (Str ''150''),
            FString ''V'']])] ''processed_output.xlsx'']"
    by code_simp
  ultimately show ?thesis using h by blast
qed

section \<open>Emission is not total\<close>

text \<open>
  C10. There is a workbook on which processing fails: its section header row has no
  non-blank cell after the wood type cell, so the status of the context is \<^verbatim>\<open>null\<close>;
  a later row passes the data row test, \<^verbatim>\<open>normalizeStatus\<close> is applied to \<^verbatim>\<open>null\<close>,
  and the TypeError ends the processing: no record is emitted and the row is not
  skipped.
\<close>

theorem null_status_fails:
  "findNextNonEmptyCell [Str ''redwood''] (Some 0) = Null
   \<and> process_row sheet_null_status ([Str ''redwood''], 0) (initial_context, []) = Inr (ctx_null, [])
   \<and> status ctx_null = Null
   \<and> forEach (process_row sheet_null_status) (zip (take 3 sheet_null_status) [0..<3])
        (initial_context, []) = Inr (ctx_null, [])
   \<and> sheet_null_status ! 3 = row_data
   \<and> truthy (cell_at row_data (packIndex ctx_null))
   \<and> regex_test PACK_RE (toString (cell_at row_data (packIndex ctx_null)))
   \<and> normalizeStatus Null = Inl TypeError
   \<and> getItemObject row_data ctx_null = Inl TypeError
   \<and> process_row sheet_null_status (row_data, 3) (ctx_null, []) = Inl TypeError
   \<and> processWorkbook wb_null_status = Inl TypeError"
  by (intro conjI; code_simp)

end
